theory Spec2Isabelle
  imports Main "HOL-Library.Sublist" "HOL-Library.AList"
begin

section \<open>Text helpers: the string operations of \<^verbatim>\<open>vpn_monitor.py\<close>\<close>

text \<open>
  The decoded output of the external commands is a \<open>string\<close>: a character stands for
  its code point, and the type \<open>char\<close> holds the code points 0 to 255. Text with a code
  point beyond 255 is outside the model. On these code points the character classes of
  Python's \<^verbatim>\<open>re\<close> module, for a \<^verbatim>\<open>str\<close> pattern, are as follows.
  \<^item> \<^verbatim>\<open>\s\<close> is the white space of \<^verbatim>\<open>str.isspace\<close>: tab to carriage return, the four
    separators 0x1C to 0x1F, the blank, the next-line control 0x85 and the no-break space
    0xA0.
  \<^item> \<^verbatim>\<open>\d\<close> is a decimal digit: the ten ASCII digits, no other below 256.
  \<^item> \<^verbatim>\<open>\w\<close> is an alphanumeric character or the underscore: the ASCII letters and
    digits, the letters 0xAA, 0xB5, 0xBA, 0xC0 to 0xFF but for the two signs 0xD7 and 0xF7,
    and the numeric characters 0xB2, 0xB3, 0xB9, 0xBC, 0xBD, 0xBE.
\<close>

definition NL :: char where
  "NL = CHR 0x0A"

definition is_space :: "char \<Rightarrow> bool" where
  "is_space c \<longleftrightarrow> c \<in> set [CHR 0x09, CHR 0x0A, CHR 0x0B, CHR 0x0C, CHR 0x0D,
                          CHR 0x1C, CHR 0x1D, CHR 0x1E, CHR 0x1F, CHR 0x20, CHR 0x85, CHR 0xA0]"

definition is_digit :: "char \<Rightarrow> bool" where
  "is_digit c \<longleftrightarrow> c \<in> set ''0123456789''"

definition latin1_word :: "nat \<Rightarrow> bool" where
  "latin1_word n \<longleftrightarrow>
     n \<in> set [0xAA, 0xB2, 0xB3, 0xB5, 0xB9, 0xBA, 0xBC, 0xBD, 0xBE] \<or>
     (0xC0 \<le> n \<and> n \<le> 0xFF \<and> n \<noteq> 0xD7 \<and> n \<noteq> 0xF7)"

definition is_word :: "char \<Rightarrow> bool" where
  "is_word c \<longleftrightarrow>
     c \<in> set (''abcdefghijklmnopqrstuvwxyz'' @ ''ABCDEFGHIJKLMNOPQRSTUVWXYZ''
               @ ''0123456789'' @ ''_'') \<or>
     latin1_word (of_char c)"

text \<open>\<^verbatim>\<open>sub in s\<close> on strings: \<open>sub\<close> occurs in \<open>s\<close> as a contiguous substring.\<close>

fun str_in :: "string \<Rightarrow> string \<Rightarrow> bool" where
  "str_in sub [] = (sub = [])"
| "str_in sub (c # cs) = (prefix sub (c # cs) \<or> str_in sub cs)"

text \<open>\<^verbatim>\<open>output.split('\n')\<close>: the pieces between line feeds; never the empty list.\<close>

fun split_nl :: "string \<Rightarrow> string list" where
  "split_nl [] = [[]]"
| "split_nl (c # cs) =
     (if c = NL then [] # split_nl cs
      else (case split_nl cs of [] \<Rightarrow> [[c]] | l # ls \<Rightarrow> (c # l) # ls))"

text \<open>
  \<^verbatim>\<open>int(pid)\<close> on a string of ASCII digits: its decimal value. The interpreter refuses
  a string of more digits than its limit; \<open>int_fails\<close> below says when, and the functions up
  to \<open>run\<close> give what the code does on listings whose pids are within the limit.
\<close>

definition digit_val :: "char \<Rightarrow> int" where
  "digit_val c = int (of_char c) - 48"

definition py_int :: "string \<Rightarrow> int" where
  "py_int ds = foldl (\<lambda>acc c. 10 * acc + digit_val c) 0 ds"

section \<open>The connectivity probe: \<^verbatim>\<open>Sentry.check_vpn\<close>\<close>

text \<open>
  \<^verbatim>\<open>re.search(r"Status: (\w+)", output)\<close>. \<open>match_status\<close> is the pattern tried at the
  start of a string: the literal, then the longest non-empty run of word characters (the
  group is greedy and nothing follows it). \<open>re_search\<close> tries every start position from the
  left and returns the group of the first position that matches.
\<close>

definition match_status :: "string \<Rightarrow> string option" where
  "match_status s =
     (if prefix ''Status: '' s
      then (let w = takeWhile is_word (drop 8 s) in if w = [] then None else Some w)
      else None)"

fun re_search :: "string \<Rightarrow> string option" where
  "re_search [] = match_status []"
| "re_search (c # cs) =
     (case match_status (c # cs) of Some w \<Rightarrow> Some w | None \<Rightarrow> re_search cs)"

text \<open>
  \<^verbatim>\<open>groups = () if match is None else match.groups()\<close>, then
  \<^verbatim>\<open>return "Connected" in groups\<close>: the tuple holds at most the one captured word.
\<close>

definition check_vpn :: "string \<Rightarrow> bool" where
  "check_vpn output_text =
     (case re_search output_text of None \<Rightarrow> False | Some w \<Rightarrow> w = ''Connected'')"

text \<open>
  The specification's reading of the probe: position \<open>i\<close> of the output holds a field
  \<^verbatim>\<open>Status: <word>\<close> whose word is \<open>w\<close>, the word being the whole run of word characters
  that follows the literal.
\<close>

definition spec_status_field :: "string \<Rightarrow> nat \<Rightarrow> string \<Rightarrow> bool" where
  "spec_status_field s i w \<longleftrightarrow>
     i \<le> length s \<and> w \<noteq> [] \<and> list_all is_word w \<and>
     (\<exists>rest. drop i s = ''Status: '' @ w @ rest \<and> (rest = [] \<or> \<not> is_word (hd rest)))"

section \<open>The watchdog's state, its environment and its observable actions\<close>

text \<open>
  A \<^verbatim>\<open>subprocess.Popen\<close> object: the command it was created with and the pid of the
  child it started.
\<close>

datatype popen = Popen (popen_args: string) (popen_pid: int)

text \<open>
  The fields of \<^verbatim>\<open>Sentry\<close>. A Python \<^verbatim>\<open>dict\<close> is an association list in insertion
  order: \<open>map_of\<close> reads a key, \<open>AList.update\<close> stores at a key (in place when the key is
  there, at the end otherwise) and \<open>AList.delete\<close> is \<^verbatim>\<open>pop\<close>.
\<close>

record sentry =
  poll_rate :: nat
  command_list :: "string list"
  processes :: "(string \<times> popen) list"

text \<open>\<^verbatim>\<open>Sentry.__init__\<close>.\<close>

definition init_sentry :: sentry where
  "init_sentry = \<lparr>poll_rate = 20, command_list = [''deluged'', ''deluge-web''], processes = []\<rparr>"

text \<open>
  What the watchdog does to the outside world, in order. One constructor per
  \<^verbatim>\<open>print\<close> statement of the source, and one per call that acts on the operating system:
  \<open>Os_kill pid\<close> is the call \<^verbatim>\<open>os.kill(pid, signal.SIGKILL)\<close> (recorded whether or not the
  pid still exists), \<open>Spawn cmd\<close> is \<^verbatim>\<open>subprocess.Popen(cmd)\<close>, \<open>Wait h\<close> is \<^verbatim>\<open>h.wait()\<close>,
  \<open>Connect_vpn\<close> is \<^verbatim>\<open>subprocess.call(['nordvpn', 'c'])\<close> and \<open>Sleep n\<close> is \<^verbatim>\<open>time.sleep(n)\<close>.
  \<open>Spawn\<close> and \<open>Os_kill\<close> are recorded whether the call succeeds or raises. A \<open>Wait h\<close>
  returns at once when the child of \<open>h\<close> has exited and blocks while it is running; the
  functions of the loop below (\<open>parse_ps\<close> to \<open>run\<close>) give what the code does when every
  \<^verbatim>\<open>wait\<close> returns, and the section after them gives a call and an iteration from the
  answers of the operating system: a command that does not run, output that does not
  decode, a pid that does not convert and a \<^verbatim>\<open>wait\<close> that blocks included.
\<close>

datatype event =
    Print_connected
  | Print_disconnected
  | Print_starting string
  | Print_killing string "int list"
  | Print_connecting
  | Print_terminated
  | Os_kill int
  | Spawn string
  | Wait popen
  | Connect_vpn
  | Sleep nat

text \<open>
  The exceptions the model follows: \<^verbatim>\<open>os.kill\<close> raises \<^verbatim>\<open>ProcessLookupError\<close> for a pid
  that no longer exists; an interrupt from the keyboard raises \<^verbatim>\<open>KeyboardInterrupt\<close>;
  \<^verbatim>\<open>subprocess.Popen\<close> and \<^verbatim>\<open>subprocess.run\<close> raise an \<^verbatim>\<open>OSError\<close> (a
  \<^verbatim>\<open>FileNotFoundError\<close> when the program is missing) for a program that cannot be
  started, named here by the program; \<^verbatim>\<open>decode('utf-8')\<close> raises
  \<^verbatim>\<open>UnicodeDecodeError\<close> on output that is not UTF-8; and \<^verbatim>\<open>int\<close> raises
  \<^verbatim>\<open>ValueError\<close> on a string of more digits than the interpreter's limit. The source
  catches none of them.
\<close>

datatype error =
    ProcessLookupError int
  | KeyboardInterrupt
  | OSError string
  | UnicodeDecodeError
  | ValueError

text \<open>
  What the outside world answers during one iteration of the loop in which
  \<^verbatim>\<open>nordvpn status\<close> and \<^verbatim>\<open>ps -x\<close> ran and their output decoded: the two texts, which
  pids \<^verbatim>\<open>os.kill\<close> still finds (\<open>False\<close> for a pid makes the call raise), the pid of the
  child a \<^verbatim>\<open>Popen\<close> starts (\<open>None\<close> when the command cannot be started and the call
  raises), and whether an interrupt arrives while the iteration blocks in its last call
  (\<^verbatim>\<open>time.sleep\<close> or \<^verbatim>\<open>nordvpn c\<close>).
\<close>

record tick_env =
  status_output :: string
  ps_output :: string
  pid_exists :: "int \<Rightarrow> bool"
  child_pid :: "string \<Rightarrow> int option"
  sigint :: bool

section \<open>The process table: \<^verbatim>\<open>Sentry.parse_ps\<close>\<close>

text \<open>
  \<^verbatim>\<open>re.fullmatch(r"^\s*(\d+) (.*)$", line)\<close>. White space and digits are disjoint and a
  digit is not a blank, so the greedy runs are the only way to match: all leading white
  space, all digits that follow (at least one), one blank, and the rest of the line, which
  holds no line feed (\<^verbatim>\<open>.\<close> does not match one).
\<close>

definition match_line :: "string \<Rightarrow> (int \<times> string) option" where
  "match_line line =
     (let rest = dropWhile is_space line;
          ds = takeWhile is_digit rest
      in if ds = [] then None
         else (case dropWhile is_digit rest of
                 [] \<Rightarrow> None
               | c # details \<Rightarrow>
                   if c = CHR '' '' \<and> NL \<notin> set details then Some (py_int ds, details)
                   else None))"

text \<open>
  The first loop of \<^verbatim>\<open>parse_ps\<close>: for every line that matches, one triple
  \<^verbatim>\<open>(cmd, pid, details)\<close> per command of \<^verbatim>\<open>command_list\<close> that occurs in the details, in
  the order of the lines and, within a line, of \<^verbatim>\<open>command_list\<close>.
\<close>

definition line_matches :: "string list \<Rightarrow> string \<Rightarrow> (string \<times> int \<times> string) list" where
  "line_matches cmds line =
     (case match_line line of
        None \<Rightarrow> []
      | Some (pid, details) \<Rightarrow>
          map (\<lambda>cmd. (cmd, pid, details)) (filter (\<lambda>cmd. str_in cmd details) cmds))"

definition processes_found :: "string list \<Rightarrow> string \<Rightarrow> (string \<times> int \<times> string) list" where
  "processes_found cmds output_text = concat (map (line_matches cmds) (split_nl output_text))"

text \<open>
  \<^verbatim>\<open>command_pids[cmd].append(pid)\<close> when the key is there, \<^verbatim>\<open>command_pids[cmd] = [pid]\<close>
  otherwise.
\<close>

definition add_pid :: "string \<Rightarrow> int \<Rightarrow> (string \<times> int list) list \<Rightarrow> (string \<times> int list) list" where
  "add_pid cmd pid command_pids =
     (case map_of command_pids cmd of
        Some pids \<Rightarrow> AList.update cmd (pids @ [pid]) command_pids
      | None \<Rightarrow> AList.update cmd [pid] command_pids)"

definition is_defunct :: "string \<Rightarrow> bool" where
  "is_defunct details = str_in ''<defunct>'' details"

text \<open>
  The second loop of \<^verbatim>\<open>parse_ps\<close>, over the triples found, when every \<^verbatim>\<open>wait\<close> returns:
  a triple marked defunct whose command has a handle in \<^verbatim>\<open>self.processes\<close> is reaped
  (\<^verbatim>\<open>wait\<close>, then \<^verbatim>\<open>pop\<close>); every other triple has its pid recorded under its command.
  The result is \<^verbatim>\<open>command_pids\<close>, the handles that remain and the \<^verbatim>\<open>wait\<close> calls made.
  The code does not compare the pid of the triple with the child of the handle, so the
  \<^verbatim>\<open>wait\<close> may be on a child that is still running; \<open>classify_os\<close> below is the same
  loop with that case.
\<close>

fun classify ::
  "(string \<times> int \<times> string) list \<Rightarrow> (string \<times> popen) list \<Rightarrow> (string \<times> int list) list \<Rightarrow>
     (string \<times> int list) list \<times> (string \<times> popen) list \<times> event list" where
  "classify [] procs command_pids = (command_pids, procs, [])"
| "classify ((cmd, pid, details) # found) procs command_pids =
     (case (if is_defunct details then map_of procs cmd else None) of
        Some h \<Rightarrow>
          (case classify found (AList.delete cmd procs) command_pids of
             (cp, procs', evs) \<Rightarrow> (cp, procs', Wait h # evs))
      | None \<Rightarrow> classify found procs (add_pid cmd pid command_pids))"

definition parse_ps ::
  "sentry \<Rightarrow> string \<Rightarrow> (string \<times> int list) list \<times> sentry \<times> event list" where
  "parse_ps s output_text =
     (case classify (processes_found (command_list s) output_text) (processes s) [] of
        (cp, procs, evs) \<Rightarrow> (cp, s\<lparr>processes := procs\<rparr>, evs))"

section \<open>Launching and killing: \<^verbatim>\<open>run_commands\<close> and \<^verbatim>\<open>kill_processes\<close>\<close>

text \<open>
  The loop of \<^verbatim>\<open>run_commands\<close> over \<^verbatim>\<open>command_list\<close>; \<open>running\<close> is the key view taken
  before the loop. \<^verbatim>\<open>Popen(cmd)\<close> either starts a child, whose handle is stored, or
  raises: then nothing is stored for the command and the exception leaves the loop, so
  the commands after it are not looked at.
\<close>

fun start_missing ::
  "(string \<Rightarrow> int option) \<Rightarrow> string list \<Rightarrow> string list \<Rightarrow> (string \<times> popen) list \<Rightarrow>
     (string \<times> popen) list \<times> error option \<times> event list" where
  "start_missing spawn running [] procs = (procs, None, [])"
| "start_missing spawn running (cmd # cmds) procs =
     (if cmd \<notin> set running
      then (case spawn cmd of
              None \<Rightarrow> (procs, Some (OSError cmd), [Print_starting cmd, Spawn cmd])
            | Some pid \<Rightarrow>
                (case start_missing spawn running cmds
                        (AList.update cmd (Popen cmd pid) procs) of
                   (procs', r, evs) \<Rightarrow> (procs', r, Print_starting cmd # Spawn cmd # evs)))
      else start_missing spawn running cmds procs)"

text \<open>The result is the state, the exception that left the method (if any) and the actions.\<close>

definition run_commands ::
  "sentry \<Rightarrow> string \<Rightarrow> (string \<Rightarrow> int option) \<Rightarrow> sentry \<times> error option \<times> event list" where
  "run_commands s output_text spawn =
     (case parse_ps s output_text of
        (cp, s', evs) \<Rightarrow>
          (case start_missing spawn (map fst cp) (command_list s') (processes s') of
             (procs, r, evs') \<Rightarrow> (s'\<lparr>processes := procs\<rparr>, r, evs @ evs')))"

text \<open>
  The inner loop of \<^verbatim>\<open>kill_processes\<close>: \<^verbatim>\<open>os.kill\<close> on each pid in turn; the first pid that
  does not exist raises, and the exception leaves the loop.
\<close>

fun kill_pids :: "(int \<Rightarrow> bool) \<Rightarrow> int list \<Rightarrow> error option \<times> event list" where
  "kill_pids ex [] = (None, [])"
| "kill_pids ex (pid # pids) =
     (if ex pid
      then (case kill_pids ex pids of (r, evs) \<Rightarrow> (r, Os_kill pid # evs))
      else (Some (ProcessLookupError pid), [Os_kill pid]))"

text \<open>The outer loop, over the keys of \<^verbatim>\<open>command_pids\<close> in insertion order.\<close>

fun kill_cmds :: "(int \<Rightarrow> bool) \<Rightarrow> (string \<times> int list) list \<Rightarrow> error option \<times> event list" where
  "kill_cmds ex [] = (None, [])"
| "kill_cmds ex ((cmd, pids) # rest) =
     (case kill_pids ex pids of
        (Some e, evs) \<Rightarrow> (Some e, Print_killing cmd pids # evs)
      | (None, evs) \<Rightarrow>
          (case kill_cmds ex rest of (r, evs') \<Rightarrow> (r, Print_killing cmd pids # evs @ evs')))"

definition kill_processes ::
  "sentry \<Rightarrow> string \<Rightarrow> (int \<Rightarrow> bool) \<Rightarrow> error option \<times> sentry \<times> event list" where
  "kill_processes s output_text ex =
     (case parse_ps s output_text of
        (cp, s', evs) \<Rightarrow> (case kill_cmds ex cp of (r, evs') \<Rightarrow> (r, s', evs @ evs')))"

section \<open>The loop: \<^verbatim>\<open>Sentry.loop\<close> and \<^verbatim>\<open>Sentry.run\<close>\<close>

text \<open>
  One iteration of \<^verbatim>\<open>while True\<close>. \<open>connected\<close> is the local flag of \<^verbatim>\<open>loop\<close>. The result is
  the exception that left the iteration (if any), the flag, the state and the actions.
\<close>

definition tick :: "bool \<Rightarrow> sentry \<Rightarrow> tick_env \<Rightarrow> error option \<times> bool \<times> sentry \<times> event list" where
  "tick connected s env =
     (if check_vpn (status_output env)
      then (case run_commands s (ps_output env) (child_pid env) of
              (s', Some e, evs) \<Rightarrow>
                (Some e, True, s', (if \<not> connected then [Print_connected] else []) @ evs)
            | (s', None, evs) \<Rightarrow>
                (if sigint env then Some KeyboardInterrupt else None, True, s',
                 (if \<not> connected then [Print_connected] else []) @ evs @ [Sleep (poll_rate s')]))
      else (case kill_processes s (ps_output env) (pid_exists env) of
              (Some e, s', evs) \<Rightarrow>
                (Some e, False, s', (if connected then [Print_disconnected] else []) @ evs)
            | (None, s', evs) \<Rightarrow>
                (if sigint env then Some KeyboardInterrupt else None, False, s',
                 (if connected then [Print_disconnected] else []) @ evs
                   @ [Print_connecting, Connect_vpn])))"

text \<open>
  \<^verbatim>\<open>while True\<close> never ends by itself: it runs one iteration per answer of the
  environment and stops only by an exception. On a finite list of answers the result
  \<open>None\<close> says that the loop has used them all and is still running.
\<close>

fun loop_from ::
  "bool \<Rightarrow> sentry \<Rightarrow> tick_env list \<Rightarrow> error option \<times> bool \<times> sentry \<times> event list" where
  "loop_from connected s [] = (None, connected, s, [])"
| "loop_from connected s (env # envs) =
     (case tick connected s env of
        (Some e, c', s', evs) \<Rightarrow> (Some e, c', s', evs)
      | (None, c', s', evs) \<Rightarrow>
          (case loop_from c' s' envs of (r, c'', s'', evs') \<Rightarrow> (r, c'', s'', evs @ evs')))"

definition loop :: "sentry \<Rightarrow> tick_env list \<Rightarrow> error option \<times> bool \<times> sentry \<times> event list" where
  "loop s envs = loop_from False s envs"

text \<open>
  \<^verbatim>\<open>try: self.loop() finally: print("Loop terminated."); self.kill_processes()\<close>. The
  \<^verbatim>\<open>finally\<close> block runs when an exception leaves the loop, against the process table and
  the pids of that moment (\<open>final_ps\<close>, \<open>final_exists\<close>); an exception of the block replaces
  the one in flight, otherwise that one is raised again.
\<close>

definition run ::
  "sentry \<Rightarrow> tick_env list \<Rightarrow> string \<Rightarrow> (int \<Rightarrow> bool) \<Rightarrow> error option \<times> sentry \<times> event list" where
  "run s envs final_ps final_exists =
     (case loop s envs of
        (None, c, s', evs) \<Rightarrow> (None, s', evs)
      | (Some e, c, s', evs) \<Rightarrow>
          (case kill_processes s' final_ps final_exists of
             (r, s'', evs') \<Rightarrow>
               ((case r of Some e' \<Rightarrow> Some e' | None \<Rightarrow> Some e), s'',
                evs @ [Print_terminated] @ evs')))"

section \<open>Calls and iterations from the answers of the operating system\<close>

text \<open>
  What \<^verbatim>\<open>subprocess.run([...], stdout=subprocess.PIPE)\<close> followed by
  \<^verbatim>\<open>result.stdout.decode('utf-8')\<close> gives: the program could not be started, its output
  is not UTF-8, or the decoded text.
\<close>

datatype cmd_answer = Not_started | Undecodable | Output string

definition decoded :: "string \<Rightarrow> cmd_answer \<Rightarrow> error + string" where
  "decoded program answer =
     (case answer of
        Not_started \<Rightarrow> Inl (OSError program)
      | Undecodable \<Rightarrow> Inl UnicodeDecodeError
      | Output text \<Rightarrow> Inr text)"

text \<open>
  The whole of \<^verbatim>\<open>Sentry.check_vpn\<close>: the two calls, then the search in the decoded text.
\<close>

definition check_vpn_os :: "cmd_answer \<Rightarrow> error + bool" where
  "check_vpn_os answer =
     (case decoded ''nordvpn'' answer of Inl e \<Rightarrow> Inl e | Inr text \<Rightarrow> Inr (check_vpn text))"

text \<open>
  \<^verbatim>\<open>int(pid)\<close> in the first loop of \<^verbatim>\<open>parse_ps\<close>, called on the digits of a line that
  matches: the interpreter (CPython 3.11 and later, with its default setting) raises
  \<^verbatim>\<open>ValueError\<close> when they are more than 4300. \<open>pids_convert\<close> says that no line of a
  listing makes the call fail.
\<close>

definition max_str_digits :: nat where
  "max_str_digits = 4300"

definition int_fails :: "string \<Rightarrow> bool" where
  "int_fails line \<longleftrightarrow>
     match_line line \<noteq> None \<and>
     max_str_digits < length (takeWhile is_digit (dropWhile is_space line))"

definition pids_convert :: "string \<Rightarrow> bool" where
  "pids_convert output_text \<longleftrightarrow> \<not> list_ex int_fails (split_nl output_text)"

text \<open>
  The second loop of \<^verbatim>\<open>parse_ps\<close> with the answer to each \<^verbatim>\<open>wait\<close>: \<open>exited h\<close> says
  that the child of the handle \<open>h\<close> has exited, so that \<^verbatim>\<open>h.wait()\<close> returns. On a child
  still running the \<^verbatim>\<open>wait\<close> blocks: the loop goes no further, the handle stays in
  \<^verbatim>\<open>self.processes\<close>, and the first component of the result is \<open>False\<close>. The other
  components are \<^verbatim>\<open>command_pids\<close>, the handles and the \<^verbatim>\<open>wait\<close> calls at that point.
\<close>

fun classify_os ::
  "(popen \<Rightarrow> bool) \<Rightarrow> (string \<times> int \<times> string) list \<Rightarrow> (string \<times> popen) list \<Rightarrow>
     (string \<times> int list) list \<Rightarrow>
     bool \<times> (string \<times> int list) list \<times> (string \<times> popen) list \<times> event list" where
  "classify_os exited [] procs command_pids = (True, command_pids, procs, [])"
| "classify_os exited ((cmd, pid, details) # found) procs command_pids =
     (case (if is_defunct details then map_of procs cmd else None) of
        Some h \<Rightarrow>
          (if exited h
           then (case classify_os exited found (AList.delete cmd procs) command_pids of
                   (returned, cp, procs', evs) \<Rightarrow> (returned, cp, procs', Wait h # evs))
           else (False, command_pids, procs, [Wait h]))
      | None \<Rightarrow> classify_os exited found procs (add_pid cmd pid command_pids))"

text \<open>
  How a method ends: it returns a value, an exception leaves it, or it blocks in a
  \<^verbatim>\<open>wait\<close>. Each case carries the state and the actions up to that point.
\<close>

datatype 'a outcome =
    Returns 'a sentry "event list"
  | Raises error sentry "event list"
  | Blocks sentry "event list"

text \<open>
  The whole of \<^verbatim>\<open>Sentry.parse_ps\<close>: the command and the decoding, the first loop, in
  which only \<^verbatim>\<open>int\<close> can raise, and the second loop.
\<close>

definition parse_ps_os ::
  "(popen \<Rightarrow> bool) \<Rightarrow> sentry \<Rightarrow> cmd_answer \<Rightarrow> (string \<times> int list) list outcome" where
  "parse_ps_os exited s answer =
     (case decoded ''ps'' answer of
        Inl e \<Rightarrow> Raises e s []
      | Inr text \<Rightarrow>
          (if \<not> pids_convert text then Raises ValueError s []
           else (case classify_os exited (processes_found (command_list s) text)
                        (processes s) [] of
                   (True, cp, procs, evs) \<Rightarrow> Returns cp (s\<lparr>processes := procs\<rparr>) evs
                 | (False, cp, procs, evs) \<Rightarrow> Blocks (s\<lparr>processes := procs\<rparr>) evs)))"

text \<open>The whole of \<^verbatim>\<open>Sentry.run_commands\<close> and of \<^verbatim>\<open>Sentry.kill_processes\<close>.\<close>

definition run_commands_os ::
  "(popen \<Rightarrow> bool) \<Rightarrow> sentry \<Rightarrow> cmd_answer \<Rightarrow> (string \<Rightarrow> int option) \<Rightarrow> unit outcome" where
  "run_commands_os exited s answer spawn =
     (case parse_ps_os exited s answer of
        Returns cp s' evs \<Rightarrow>
          (case start_missing spawn (map fst cp) (command_list s') (processes s') of
             (procs, None, evs') \<Rightarrow> Returns () (s'\<lparr>processes := procs\<rparr>) (evs @ evs')
           | (procs, Some e, evs') \<Rightarrow> Raises e (s'\<lparr>processes := procs\<rparr>) (evs @ evs'))
      | Raises e s' evs \<Rightarrow> Raises e s' evs
      | Blocks s' evs \<Rightarrow> Blocks s' evs)"

definition kill_processes_os ::
  "(popen \<Rightarrow> bool) \<Rightarrow> sentry \<Rightarrow> cmd_answer \<Rightarrow> (int \<Rightarrow> bool) \<Rightarrow> unit outcome" where
  "kill_processes_os exited s answer ex =
     (case parse_ps_os exited s answer of
        Returns cp s' evs \<Rightarrow>
          (case kill_cmds ex cp of
             (None, evs') \<Rightarrow> Returns () s' (evs @ evs')
           | (Some e, evs') \<Rightarrow> Raises e s' (evs @ evs'))
      | Raises e s' evs \<Rightarrow> Raises e s' evs
      | Blocks s' evs \<Rightarrow> Blocks s' evs)"

text \<open>
  What the operating system answers during one iteration: the answers to the two
  commands, which children have exited, which pids \<^verbatim>\<open>os.kill\<close> finds, the child a
  \<^verbatim>\<open>Popen\<close> starts, and whether an interrupt arrives during the last call.
\<close>

record os_env =
  status_answer :: cmd_answer
  ps_answer :: cmd_answer
  child_exited :: "popen \<Rightarrow> bool"
  kill_finds :: "int \<Rightarrow> bool"
  popen_child :: "string \<Rightarrow> int option"
  interrupted :: bool

text \<open>
  One iteration of \<^verbatim>\<open>while True\<close> from these answers. It ends, with the result that
  \<open>tick\<close> gives, or it is stuck in a \<^verbatim>\<open>wait\<close>, with the flag, the state and the actions
  up to there.
\<close>

datatype tick_outcome =
    Ended "error option \<times> bool \<times> sentry \<times> event list"
  | Stuck bool sentry "event list"

definition tick_os :: "bool \<Rightarrow> sentry \<Rightarrow> os_env \<Rightarrow> tick_outcome" where
  "tick_os connected s env =
     (case check_vpn_os (status_answer env) of
        Inl e \<Rightarrow> Ended (Some e, connected, s, [])
      | Inr True \<Rightarrow>
          (case run_commands_os (child_exited env) s (ps_answer env) (popen_child env) of
             Returns u s' evs \<Rightarrow>
               Ended (if interrupted env then Some KeyboardInterrupt else None, True, s',
                      (if \<not> connected then [Print_connected] else []) @ evs
                        @ [Sleep (poll_rate s')])
           | Raises e s' evs \<Rightarrow>
               Ended (Some e, True, s', (if \<not> connected then [Print_connected] else []) @ evs)
           | Blocks s' evs \<Rightarrow>
               Stuck True s' ((if \<not> connected then [Print_connected] else []) @ evs))
      | Inr False \<Rightarrow>
          (case kill_processes_os (child_exited env) s (ps_answer env) (kill_finds env) of
             Returns u s' evs \<Rightarrow>
               Ended (if interrupted env then Some KeyboardInterrupt else None, False, s',
                      (if connected then [Print_disconnected] else []) @ evs
                        @ [Print_connecting, Connect_vpn])
           | Raises e s' evs \<Rightarrow>
               Ended (Some e, False, s', (if connected then [Print_disconnected] else []) @ evs)
           | Blocks s' evs \<Rightarrow>
               Stuck False s' ((if connected then [Print_disconnected] else []) @ evs)))"

text \<open>
  The answers of an iteration in which both commands gave text, as \<open>tick\<close> takes them.
\<close>

definition as_tick_env :: "os_env \<Rightarrow> string \<Rightarrow> string \<Rightarrow> tick_env" where
  "as_tick_env env status_text ps_text =
     \<lparr>status_output = status_text, ps_output = ps_text, pid_exists = kill_finds env,
      child_pid = popen_child env, sigint = interrupted env\<rparr>"

section \<open>Notions used to state the properties\<close>

text \<open>The components of the results of \<open>tick\<close> and \<open>loop\<close>.\<close>

definition exc_of :: "error option \<times> bool \<times> sentry \<times> event list \<Rightarrow> error option" where
  "exc_of r = fst r"

definition flag_of :: "error option \<times> bool \<times> sentry \<times> event list \<Rightarrow> bool" where
  "flag_of r = fst (snd r)"

definition state_of :: "error option \<times> bool \<times> sentry \<times> event list \<Rightarrow> sentry" where
  "state_of r = fst (snd (snd r))"

definition trace_of :: "error option \<times> bool \<times> sentry \<times> event list \<Rightarrow> event list" where
  "trace_of r = snd (snd (snd r))"

text \<open>The pids of the \<^verbatim>\<open>os.kill\<close> calls of a trace, and the commands of its launches.\<close>

fun os_kills :: "event list \<Rightarrow> int list" where
  "os_kills [] = []"
| "os_kills (Os_kill pid # evs) = pid # os_kills evs"
| "os_kills (ev # evs) = os_kills evs"

fun launches :: "event list \<Rightarrow> string list" where
  "launches [] = []"
| "launches (Spawn cmd # evs) = cmd # launches evs"
| "launches (ev # evs) = launches evs"

text \<open>
  The targets a sequence of calls reaches when the first call that fails ends it: all up
  to and including the first for which \<open>ex\<close> is false. For \<^verbatim>\<open>os.kill\<close> these are the pids
  up to the first that is gone, for \<^verbatim>\<open>Popen\<close> the commands up to the first that cannot
  be started.
\<close>

definition attempted :: "('a \<Rightarrow> bool) \<Rightarrow> 'a list \<Rightarrow> 'a list" where
  "attempted ex pids = takeWhile ex pids @ take 1 (dropWhile ex pids)"

text \<open>
  The process-table entries (pid and details) found for a command, the same entries
  without the first one marked defunct, and the pids a result lists under a command.
\<close>

definition entries_for :: "string \<Rightarrow> (string \<times> int \<times> string) list \<Rightarrow> (int \<times> string) list" where
  "entries_for cmd found = map snd (filter (\<lambda>e. fst e = cmd) found)"

fun drop_first_defunct :: "(int \<times> string) list \<Rightarrow> (int \<times> string) list" where
  "drop_first_defunct [] = []"
| "drop_first_defunct ((pid, details) # es) =
     (if is_defunct details then es else (pid, details) # drop_first_defunct es)"

definition listed :: "(string \<times> int list) list \<Rightarrow> string \<Rightarrow> int list" where
  "listed command_pids cmd = (case map_of command_pids cmd of None \<Rightarrow> [] | Some pids \<Rightarrow> pids)"

text \<open>
  Every \<^verbatim>\<open>wait\<close> of an enumeration returns: each handle whose command has an entry
  marked defunct in the listing is the handle of a child that has exited.
\<close>

definition waits_return :: "(popen \<Rightarrow> bool) \<Rightarrow> sentry \<Rightarrow> string \<Rightarrow> bool" where
  "waits_return exited s ps_text \<longleftrightarrow>
     (\<forall>(cmd, h) \<in> set (processes s).
        (\<exists>e \<in> set (entries_for cmd (processes_found (command_list s) ps_text)).
           is_defunct (snd e)) \<longrightarrow> exited h)"

text \<open>
  Changes of the probe's answer between consecutive iterations, \<open>prev\<close> being the answer
  before the first: from disconnected to connected, and from connected to disconnected.
\<close>

fun connect_edges :: "bool \<Rightarrow> bool list \<Rightarrow> nat" where
  "connect_edges prev [] = 0"
| "connect_edges prev (b # bs) = (if b \<and> \<not> prev then 1 else 0) + connect_edges b bs"

fun disconnect_edges :: "bool \<Rightarrow> bool list \<Rightarrow> nat" where
  "disconnect_edges prev [] = 0"
| "disconnect_edges prev (b # bs) = (if \<not> b \<and> prev then 1 else 0) + disconnect_edges b bs"

text \<open>
  The invariant of the handle map: its keys are managed commands, and no key occurs
  twice.
\<close>

definition handles_ok :: "sentry \<Rightarrow> bool" where
  "handles_ok s \<longleftrightarrow>
     fst ` set (processes s) \<subseteq> set (command_list s) \<and> distinct (map fst (processes s))"

section \<open>Example process tables and environments\<close>

text \<open>
  A listing of \<^verbatim>\<open>ps -x\<close> with both managed commands running, one with two defunct
  \<^verbatim>\<open>deluged\<close> entries, and one with the header line only.
\<close>

definition ps_two_running :: string where
  "ps_two_running =
     ''  PID TTY  STAT  TIME COMMAND'' @ [NL] @
     ''  101 ?  Sl  0:03 deluged'' @ [NL] @
     ''  102 ?  Sl  0:01 deluge-web'' @ [NL]"

definition ps_two_zombies :: string where
  "ps_two_zombies =
     ''  PID TTY  STAT  TIME COMMAND'' @ [NL] @
     ''  101 ?  Z  0:00 [deluged] <defunct>'' @ [NL] @
     ''  205 ?  Z  0:00 [deluged] <defunct>'' @ [NL]"

definition ps_none_running :: string where
  "ps_none_running = ''  PID TTY  STAT  TIME COMMAND'' @ [NL]"

text \<open>
  The tunnel is down and both commands are listed; in \<open>env_down_stale\<close> pid 101 has
  exited between the listing and the kill.
\<close>

definition env_down :: tick_env where
  "env_down = \<lparr>status_output = ''Status: Disconnected'', ps_output = ps_two_running,
     pid_exists = (\<lambda>pid. True), child_pid = (\<lambda>cmd. None), sigint = False\<rparr>"

definition env_down_stale :: tick_env where
  "env_down_stale = \<lparr>status_output = ''Status: Disconnected'', ps_output = ps_two_running,
     pid_exists = (\<lambda>pid. pid \<noteq> 101), child_pid = (\<lambda>cmd. None), sigint = False\<rparr>"

text \<open>The tunnel is up and no managed command is listed.\<close>

definition env_up :: tick_env where
  "env_up = \<lparr>status_output = ''Status: Connected'', ps_output = ps_none_running,
     pid_exists = (\<lambda>pid. True),
     child_pid = (\<lambda>cmd. if cmd = ''deluged'' then Some 101 else Some 102),
     sigint = False\<rparr>"

text \<open>The tunnel is up and both commands are listed.\<close>

definition env_up_running :: tick_env where
  "env_up_running = \<lparr>status_output = ''Status: Connected'', ps_output = ps_two_running,
     pid_exists = (\<lambda>pid. True), child_pid = (\<lambda>cmd. None), sigint = False\<rparr>"

text \<open>The watchdog holds the handle of the \<^verbatim>\<open>deluged\<close> it launched as pid 101.\<close>

definition owning_sentry :: sentry where
  "owning_sentry = init_sentry\<lparr>processes := [(''deluged'', Popen ''deluged'' 101)]\<rparr>"

text \<open>
  A listing in which the only entry of \<^verbatim>\<open>deluged\<close> is a zombie of another parent.
\<close>

definition ps_unowned_zombie :: string where
  "ps_unowned_zombie =
     ''  PID TTY  STAT  TIME COMMAND'' @ [NL] @
     ''    7 ?  Z  0:00 [deluged] <defunct>'' @ [NL]"

text \<open>
  The answers of the operating system with the tunnel up: nothing is listed and both
  commands start; nothing is listed and no command can be started; and the listing with
  the zombie of another parent, both commands being startable.
\<close>

definition os_up :: os_env where
  "os_up = \<lparr>status_answer = Output ''Status: Connected'',
     ps_answer = Output ps_none_running, child_exited = (\<lambda>h. False),
     kill_finds = (\<lambda>pid. True),
     popen_child = (\<lambda>cmd. if cmd = ''deluged'' then Some 101 else Some 102),
     interrupted = False\<rparr>"

definition os_up_missing :: os_env where
  "os_up_missing = \<lparr>status_answer = Output ''Status: Connected'',
     ps_answer = Output ps_none_running, child_exited = (\<lambda>h. False),
     kill_finds = (\<lambda>pid. True), popen_child = (\<lambda>cmd. None), interrupted = False\<rparr>"

definition os_up_zombie :: os_env where
  "os_up_zombie = \<lparr>status_answer = Output ''Status: Connected'',
     ps_answer = Output ps_unowned_zombie, child_exited = (\<lambda>h. False),
     kill_finds = (\<lambda>pid. True),
     popen_child = (\<lambda>cmd. if cmd = ''deluged'' then Some 101 else Some 102),
     interrupted = False\<rparr>"

text \<open>
  The watchdog holds the handle of the \<^verbatim>\<open>deluge-web\<close> it launched as pid 102, which is
  still running, and the listing also shows a defunct \<^verbatim>\<open>deluge-web\<close> of another parent.
\<close>

definition web_owner :: sentry where
  "web_owner = init_sentry\<lparr>processes := [(''deluge-web'', Popen ''deluge-web'' 102)]\<rparr>"

definition ps_foreign_zombie :: string where
  "ps_foreign_zombie =
     ''  PID TTY  STAT  TIME COMMAND'' @ [NL] @
     ''  102 ?  Sl  0:01 deluge-web'' @ [NL] @
     ''  300 ?  Z  0:00 [deluge-web] <defunct>'' @ [NL]"

text \<open>
  The answers of the operating system with the tunnel down: the listing with the two
  defunct \<^verbatim>\<open>deluged\<close> entries, the child 101 having exited; and the listing with the
  foreign zombie, the child 102 still running.
\<close>

definition os_two_zombies :: os_env where
  "os_two_zombies = \<lparr>status_answer = Output ''Status: Disconnected'',
     ps_answer = Output ps_two_zombies, child_exited = (\<lambda>h. popen_pid h = 101),
     kill_finds = (\<lambda>pid. True), popen_child = (\<lambda>cmd. None), interrupted = False\<rparr>"

definition os_foreign_zombie :: os_env where
  "os_foreign_zombie = \<lparr>status_answer = Output ''Status: Disconnected'',
     ps_answer = Output ps_foreign_zombie, child_exited = (\<lambda>h. False),
     kill_finds = (\<lambda>pid. True), popen_child = (\<lambda>cmd. None), interrupted = False\<rparr>"

section \<open>Properties of the text helpers\<close>

lemma takeWhile_maximal:
  "list_all P w \<Longrightarrow> rest = [] \<or> \<not> P (hd rest) \<Longrightarrow> takeWhile P (w @ rest) = w"
  by (cases rest) (auto simp: list_all_iff)

lemma dropWhile_maximal:
  "list_all P w \<Longrightarrow> rest = [] \<or> \<not> P (hd rest) \<Longrightarrow> dropWhile P (w @ rest) = rest"
  by (cases rest) (auto simp: list_all_iff)

lemma digit_not_space: "is_digit c \<Longrightarrow> \<not> is_space c"
  by (auto simp: is_digit_def is_space_def)

lemma blank_not_digit: "\<not> is_digit (CHR '' '')"
  by (simp add: is_digit_def)

section \<open>The connectivity probe\<close>

lemma match_status_field0: "match_status s = Some w \<longleftrightarrow> spec_status_field s 0 w"
proof
  assume m: "match_status s = Some w"
  then have p: "prefix ''Status: '' s"
    by (simp add: match_status_def split: if_splits)
  then obtain t where s: "s = ''Status: '' @ t"
    by (auto simp: prefix_def)
  from m p s have w: "w = takeWhile is_word t" "w \<noteq> []"
    by (auto simp: match_status_def Let_def split: if_splits)
  have "t = w @ dropWhile is_word t"
    by (simp add: w)
  moreover have "dropWhile is_word t = [] \<or> \<not> is_word (hd (dropWhile is_word t))"
    using hd_dropWhile [of is_word t] by blast
  moreover have "list_all is_word w"
    unfolding w list_all_iff using set_takeWhileD by fastforce
  ultimately show "spec_status_field s 0 w"
    unfolding spec_status_field_def using w(2) s by auto
next
  assume "spec_status_field s 0 w"
  then obtain rest where r: "s = ''Status: '' @ w @ rest" "w \<noteq> []" "list_all is_word w"
      "rest = [] \<or> \<not> is_word (hd rest)"
    by (auto simp: spec_status_field_def)
  have "takeWhile is_word (w @ rest) = w"
    using r(3,4) by (rule takeWhile_maximal)
  then show "match_status s = Some w"
    using r(1,2) by (simp add: match_status_def)
qed

lemma spec_status_field_Cons:
  "spec_status_field (c # cs) (Suc i) w \<longleftrightarrow> spec_status_field cs i w"
  by (simp add: spec_status_field_def)

lemma spec_status_field_Nil: "\<not> spec_status_field [] i w"
  by (simp add: spec_status_field_def)

text \<open>
  \<open>re_search\<close> returns the word of the leftmost field: the declarative reading of
  \<^verbatim>\<open>re.search\<close> for this pattern.
\<close>

lemma re_search_first_field:
  "re_search s = Some w \<longleftrightarrow>
     (\<exists>i. spec_status_field s i w \<and> (\<forall>j<i. \<forall>w'. \<not> spec_status_field s j w'))"
proof (induction s)
  case Nil
  then show ?case
    by (simp add: match_status_def spec_status_field_Nil)
next
  case (Cons c cs)
  show ?case
  proof (cases "match_status (c # cs)")
    case (Some w0)
    then have f0: "spec_status_field (c # cs) 0 w0"
      by (simp add: match_status_field0)
    show ?thesis
    proof
      assume "re_search (c # cs) = Some w"
      with Some have "w = w0" by simp
      with f0 show "\<exists>i. spec_status_field (c # cs) i w \<and>
                     (\<forall>j<i. \<forall>w'. \<not> spec_status_field (c # cs) j w')"
        by (intro exI [of _ 0]) simp
    next
      assume "\<exists>i. spec_status_field (c # cs) i w \<and>
                (\<forall>j<i. \<forall>w'. \<not> spec_status_field (c # cs) j w')"
      then obtain i where i: "spec_status_field (c # cs) i w"
          "\<forall>j<i. \<forall>w'. \<not> spec_status_field (c # cs) j w'"
        by blast
      have "i = 0"
      proof (rule ccontr)
        assume "i \<noteq> 0"
        then have "0 < i" by simp
        with i(2) f0 show False by blast
      qed
      with i(1) have "match_status (c # cs) = Some w"
        by (simp add: match_status_field0)
      with Some show "re_search (c # cs) = Some w" by simp
    qed
  next
    case None
    then have n0: "\<And>w'. \<not> spec_status_field (c # cs) 0 w'"
      using match_status_field0 [of "c # cs"] by simp
    have eq: "re_search (c # cs) = re_search cs"
      using None by simp
    show ?thesis
    proof
      assume "re_search (c # cs) = Some w"
      with eq Cons.IH obtain i where i: "spec_status_field cs i w"
          "\<forall>j<i. \<forall>w'. \<not> spec_status_field cs j w'"
        by auto
      have "\<forall>j<Suc i. \<forall>w'. \<not> spec_status_field (c # cs) j w'"
      proof (intro allI impI)
        fix j w' assume "j < Suc i"
        then show "\<not> spec_status_field (c # cs) j w'"
          using n0 i(2) by (cases j) (auto simp: spec_status_field_Cons)
      qed
      with i(1) show "\<exists>i. spec_status_field (c # cs) i w \<and>
                     (\<forall>j<i. \<forall>w'. \<not> spec_status_field (c # cs) j w')"
        by (intro exI [of _ "Suc i"]) (simp add: spec_status_field_Cons)
    next
      assume "\<exists>i. spec_status_field (c # cs) i w \<and>
                (\<forall>j<i. \<forall>w'. \<not> spec_status_field (c # cs) j w')"
      then obtain i where i: "spec_status_field (c # cs) i w"
          "\<forall>j<i. \<forall>w'. \<not> spec_status_field (c # cs) j w'"
        by blast
      from i(1) n0 obtain k where k: "i = Suc k"
        by (cases i) auto
      have "spec_status_field cs k w"
        using i(1) k by (simp add: spec_status_field_Cons)
      moreover have "\<forall>j<k. \<forall>w'. \<not> spec_status_field cs j w'"
      proof (intro allI impI)
        fix j w' assume "j < k"
        then have "Suc j < i" using k by simp
        with i(2) show "\<not> spec_status_field cs j w'"
          using spec_status_field_Cons by blast
      qed
      ultimately have "re_search cs = Some w"
        using Cons.IH by blast
      with eq show "re_search (c # cs) = Some w" by simp
    qed
  qed
qed

lemma check_vpn_os_Output: "check_vpn_os (Output text) = Inr (check_vpn text)"
  by (simp add: check_vpn_os_def decoded_def)

lemma check_vpn_os_raises:
  "(\<exists>e. check_vpn_os answer = Inl e) \<longleftrightarrow> answer = Not_started \<or> answer = Undecodable"
  by (cases answer) (simp_all add: check_vpn_os_def decoded_def)

text \<open>
  Claim C6. For every decoded output of the probe, \<open>check_vpn\<close> is true exactly when the
  output holds a field \<^verbatim>\<open>Status: <word>\<close> and the word the search captures, that of the
  leftmost field, is \<^verbatim>\<open>Connected\<close>. An output without any field gives false, and so do
  another word and the empty output. On a decoded output the whole method returns that
  boolean and raises nothing towards the loop; an exception leaves it only when the
  program could not be started or its output is not UTF-8. A word character is one of
  \<^verbatim>\<open>\w\<close> on the code points 0 to 255.
\<close>

theorem check_vpn_iff_first_status_field:
  "(check_vpn out \<longleftrightarrow>
      (\<exists>i. spec_status_field out i ''Connected'' \<and>
           (\<forall>j<i. \<forall>w. \<not> spec_status_field out j w)))
   \<and> ((\<forall>i w. \<not> spec_status_field out i w) \<longrightarrow> \<not> check_vpn out)
   \<and> check_vpn_os (Output out) = Inr (check_vpn out)
   \<and> (\<forall>e. check_vpn_os (Output out) \<noteq> Inl e)
   \<and> ((\<exists>e. check_vpn_os answer = Inl e) \<longleftrightarrow> answer = Not_started \<or> answer = Undecodable)
   \<and> check_vpn_os (Output ''Status: Connected'') = Inr True
   \<and> check_vpn_os (Output ''Status: Disconnected'') = Inr False
   \<and> check_vpn_os (Output []) = Inr False"
proof -
  have a: "check_vpn out \<longleftrightarrow> re_search out = Some ''Connected''" for out
    by (auto simp: check_vpn_def split: option.splits)
  have 1: "check_vpn out \<longleftrightarrow>
      (\<exists>i. spec_status_field out i ''Connected'' \<and>
           (\<forall>j<i. \<forall>w. \<not> spec_status_field out j w))"
    unfolding a by (rule re_search_first_field)
  have 2: "(\<forall>i w. \<not> spec_status_field out i w) \<longrightarrow> \<not> check_vpn out"
    unfolding 1 by blast
  have 3: "check_vpn_os (Output ''Status: Connected'') = Inr True"
    by (simp add: check_vpn_os_Output check_vpn_def match_status_def is_word_def)
  have 4: "check_vpn_os (Output ''Status: Disconnected'') = Inr False"
    by (simp add: check_vpn_os_Output check_vpn_def match_status_def is_word_def)
  have 5: "check_vpn_os (Output []) = Inr False"
    by (simp add: check_vpn_os_Output check_vpn_def match_status_def)
  have 6: "check_vpn_os (Output out) = Inr (check_vpn out)"
    by (rule check_vpn_os_Output)
  have 7: "\<forall>e. check_vpn_os (Output out) \<noteq> Inl e"
    by (simp add: check_vpn_os_Output)
  show ?thesis
    by (intro conjI; (fact 1 2 3 4 5 6 7 check_vpn_os_raises))
qed

theorem check_vpn_iff_first_status_field_witness:
  "check_vpn (''VPN'' @ [NL] @ ''Status: Connected'' @ [NL] @ ''Status: Off'')
   \<and> (\<exists>i. spec_status_field
             (''VPN'' @ [NL] @ ''Status: Connected'' @ [NL] @ ''Status: Off'') i ''Connected'')
   \<and> check_vpn_os (Output (''VPN'' @ [NL] @ ''Status: Connected'' @ [NL] @ ''Status: Off''))
       = Inr True
   \<and> \<not> check_vpn (''Status: Connected'' @ [CHR 0xE9])"
proof -
  have 1: "check_vpn (''VPN'' @ [NL] @ ''Status: Connected'' @ [NL] @ ''Status: Off'')"
    by (simp add: check_vpn_def match_status_def is_word_def latin1_word_def NL_def)
  have 2: "\<not> check_vpn (''Status: Connected'' @ [CHR 0xE9])"
    by (simp add: check_vpn_def match_status_def is_word_def latin1_word_def)
  note t = check_vpn_iff_first_status_field
      [of "''VPN'' @ [NL] @ ''Status: Connected'' @ [NL] @ ''Status: Off''"]
  from t 1 have 3: "\<exists>i. spec_status_field
      (''VPN'' @ [NL] @ ''Status: Connected'' @ [NL] @ ''Status: Off'') i ''Connected''"
    by blast
  from t have "check_vpn_os (Output (''VPN'' @ [NL] @ ''Status: Connected'' @ [NL] @ ''Status: Off''))
      = Inr (check_vpn (''VPN'' @ [NL] @ ''Status: Connected'' @ [NL] @ ''Status: Off''))"
    by blast
  with 1 have 4: "check_vpn_os
      (Output (''VPN'' @ [NL] @ ''Status: Connected'' @ [NL] @ ''Status: Off'')) = Inr True"
    by simp
  show ?thesis
    by (intro conjI; (fact 1 2 3 4))
qed

section \<open>The process table\<close>

lemma match_line_iff:
  "match_line l = Some (pid, details) \<longleftrightarrow>
     (\<exists>ws ds. l = ws @ ds @ CHR '' '' # details \<and> list_all is_space ws \<and> ds \<noteq> [] \<and>
        list_all is_digit ds \<and> pid = py_int ds \<and> NL \<notin> set details)"
proof
  assume m: "match_line l = Some (pid, details)"
  define ws where "ws = takeWhile is_space l"
  define rest where "rest = dropWhile is_space l"
  define ds where "ds = takeWhile is_digit rest"
  have l: "l = ws @ rest" by (simp add: ws_def rest_def)
  have r: "rest = ds @ dropWhile is_digit rest" by (simp add: ds_def)
  from m have ne: "ds \<noteq> []"
    by (auto simp: match_line_def Let_def ds_def rest_def split: if_splits)
  from m ne have a: "dropWhile is_digit rest = CHR '' '' # details" "NL \<notin> set details"
      "pid = py_int ds"
    by (auto simp: match_line_def Let_def ds_def rest_def split: if_splits list.splits)
  have "list_all is_space ws"
    unfolding ws_def list_all_iff using set_takeWhileD by fastforce
  moreover have "list_all is_digit ds"
    unfolding ds_def list_all_iff using set_takeWhileD by fastforce
  moreover have "l = ws @ ds @ CHR '' '' # details"
    using l r a(1) by simp
  ultimately show "\<exists>ws ds. l = ws @ ds @ CHR '' '' # details \<and> list_all is_space ws \<and>
        ds \<noteq> [] \<and> list_all is_digit ds \<and> pid = py_int ds \<and> NL \<notin> set details"
    using ne a(2,3) by blast
next
  assume "\<exists>ws ds. l = ws @ ds @ CHR '' '' # details \<and> list_all is_space ws \<and> ds \<noteq> [] \<and>
        list_all is_digit ds \<and> pid = py_int ds \<and> NL \<notin> set details"
  then obtain ws ds where h: "l = ws @ ds @ CHR '' '' # details" "list_all is_space ws"
      "ds \<noteq> []" "list_all is_digit ds" "pid = py_int ds" "NL \<notin> set details"
    by blast
  from h(3,4) have "\<not> is_space (hd (ds @ CHR '' '' # details))"
    by (cases ds) (auto simp: digit_not_space)
  then have 1: "dropWhile is_space l = ds @ CHR '' '' # details"
    unfolding h(1) using h(2) by (intro dropWhile_maximal) auto
  have 2: "takeWhile is_digit (ds @ CHR '' '' # details) = ds"
    using h(4) by (intro takeWhile_maximal) (auto simp: blank_not_digit)
  have 3: "dropWhile is_digit (ds @ CHR '' '' # details) = CHR '' '' # details"
    using h(4) by (intro dropWhile_maximal) (auto simp: blank_not_digit)
  show "match_line l = Some (pid, details)"
    using h(3,5,6) by (simp add: match_line_def Let_def 1 2 3)
qed

lemma processes_found_skip:
  "processes_found cmds out =
     concat (map (line_matches cmds) (filter (\<lambda>l. match_line l \<noteq> None) (split_nl out)))"
proof -
  have "concat (map (line_matches cmds) (filter (\<lambda>l. match_line l \<noteq> None) ls)) =
        concat (map (line_matches cmds) ls)" for ls
    by (induction ls) (auto simp: line_matches_def split: option.splits)
  then show ?thesis
    by (simp add: processes_found_def)
qed

lemma processes_found_cmd:
  "(cmd, pid, details) \<in> set (processes_found cmds out) \<Longrightarrow> cmd \<in> set cmds \<and> str_in cmd details"
  by (auto simp: processes_found_def line_matches_def split: option.splits)

lemma listed_add_pid:
  "listed (add_pid c p cp) x = (if x = c then listed cp x @ [p] else listed cp x)"
  by (simp add: listed_def add_pid_def update_conv' split: option.splits)

lemma classify_listed:
  "listed (fst (classify found procs cp)) x =
     listed cp x @ map fst (if map_of procs x = None then entries_for x found
                            else drop_first_defunct (entries_for x found))"
proof (induction found procs cp rule: classify.induct)
  case (1 procs cp)
  then show ?case by (simp add: entries_for_def)
next
  case (2 cmd pid details found procs cp)
  show ?case
  proof (cases "if is_defunct details then map_of procs cmd else None")
    case None
    then show ?thesis
      using 2(1) [OF None]
      by (auto simp: entries_for_def listed_add_pid split: if_splits)
  next
    case (Some h)
    then have d: "is_defunct details" "map_of procs cmd = Some h"
      by (auto split: if_splits)
    show ?thesis
      using 2(2) [OF Some] d
      by (auto simp: entries_for_def delete_conv' split: prod.splits)
  qed
qed

lemma classify_procs:
  "map_of (fst (snd (classify found procs cp))) x =
     (if \<exists>e \<in> set (entries_for x found). is_defunct (snd e) then None else map_of procs x)"
proof (induction found procs cp rule: classify.induct)
  case (1 procs cp)
  then show ?case by (simp add: entries_for_def)
next
  case (2 cmd pid details found procs cp)
  show ?case
  proof (cases "if is_defunct details then map_of procs cmd else None")
    case None
    then show ?thesis
      using 2(1) [OF None]
      by (auto simp: entries_for_def split: if_splits)
  next
    case (Some h)
    then have d: "is_defunct details" "map_of procs cmd = Some h"
      by (auto split: if_splits)
    show ?thesis
      using 2(2) [OF Some] d
      by (auto simp: entries_for_def delete_conv' split: prod.splits)
  qed
qed

lemma classify_keys:
  "fst ` set (fst (snd (classify found procs cp))) \<subseteq> fst ` set procs"
proof (induction found procs cp rule: classify.induct)
  case (1 procs cp)
  then show ?case by simp
next
  case (2 cmd pid details found procs cp)
  show ?case
  proof (cases "if is_defunct details then map_of procs cmd else None")
    case None
    then show ?thesis
      using 2(1) [OF None] by simp
  next
    case (Some h)
    obtain cp' procs' evs' where
      c: "classify found (AList.delete cmd procs) cp = (cp', procs', evs')"
      by (cases "classify found (AList.delete cmd procs) cp") auto
    have "fst ` set procs' \<subseteq> fst ` set (AList.delete cmd procs)"
      using 2(2) [OF Some] c by simp
    also have "\<dots> \<subseteq> fst ` set procs"
      by (rule dom_delete_subset)
    finally show ?thesis
      using Some c by simp
  qed
qed

lemma classify_distinct:
  "distinct (map fst procs) \<Longrightarrow> distinct (map fst (fst (snd (classify found procs cp))))"
proof (induction found procs cp rule: classify.induct)
  case (1 procs cp)
  then show ?case by simp
next
  case (2 cmd pid details found procs cp)
  show ?case
  proof (cases "if is_defunct details then map_of procs cmd else None")
    case None
    then show ?thesis
      using 2(1) [OF None] 2(3) by simp
  next
    case (Some h)
    show ?thesis
      using 2(2) [OF Some] Some 2(3) distinct_delete [of procs cmd]
      by (auto split: prod.splits)
  qed
qed


lemma classify_events:
  "ev \<in> set (snd (snd (classify found procs cp))) \<Longrightarrow>
     \<exists>c h. ev = Wait h \<and> map_of procs c = Some h \<and>
       (\<exists>e \<in> set (entries_for c found). is_defunct (snd e))"
proof (induction found procs cp rule: classify.induct)
  case (1 procs cp)
  then show ?case by simp
next
  case (2 cmd pid details found procs cp)
  show ?case
  proof (cases "if is_defunct details then map_of procs cmd else None")
    case None
    then show ?thesis
      using 2(1) [OF None] 2(3)
      by (auto simp: entries_for_def split: if_splits) 
  next
    case (Some h')
    then have d: "is_defunct details" "map_of procs cmd = Some h'"
      by (auto split: if_splits)
    obtain cp' procs' evs' where c: "classify found (AList.delete cmd procs) cp = (cp', procs', evs')"
      by (cases "classify found (AList.delete cmd procs) cp") auto
    from 2(3) d c have "ev = Wait h' \<or> ev \<in> set evs'"
      by auto
    then show ?thesis
    proof
      assume "ev = Wait h'"
      then show ?thesis using d by (auto simp: entries_for_def intro!: exI [of _ cmd])
    next
      assume "ev \<in> set evs'"
      then obtain c' h where "ev = Wait h" "map_of (AList.delete cmd procs) c' = Some h"
          "\<exists>e \<in> set (entries_for c' found). is_defunct (snd e)"
        using 2(2) [OF Some] c by auto
      moreover from this have "c' \<noteq> cmd" "map_of procs c' = Some h"
        by (auto simp: delete_conv' split: if_splits)
      moreover have "set (entries_for c' found) \<subseteq> set (entries_for c' ((cmd, pid, details) # found))"
        by (auto simp: entries_for_def)
      ultimately show ?thesis
        by blast
    qed
  qed
qed


lemma parse_ps_cp:
  "fst (parse_ps s out) = fst (classify (processes_found (command_list s) out) (processes s) [])"
  by (simp add: parse_ps_def split: prod.splits)

lemma parse_ps_state:
  "fst (snd (parse_ps s out)) =
     s\<lparr>processes := fst (snd (classify (processes_found (command_list s) out) (processes s) []))\<rparr>"
  by (simp add: parse_ps_def split: prod.splits)

lemma parse_ps_events:
  "snd (snd (parse_ps s out)) =
     snd (snd (classify (processes_found (command_list s) out) (processes s) []))"
  by (simp add: parse_ps_def split: prod.splits)

lemma listed_Nil: "listed [] x = []"
  by (simp add: listed_def)

lemma parse_ps_os_Output_no_error:
  "pids_convert text \<Longrightarrow> parse_ps_os exited s (Output text) \<noteq> Raises e s' evs"
  by (simp add: parse_ps_os_def decoded_def split: prod.splits bool.splits)

lemma parse_ps_os_Not_started: "parse_ps_os exited s Not_started = Raises (OSError ''ps'') s []"
  by (simp add: parse_ps_os_def decoded_def)

lemma parse_ps_os_Undecodable: "parse_ps_os exited s Undecodable = Raises UnicodeDecodeError s []"
  by (simp add: parse_ps_os_def decoded_def)

lemma parse_ps_os_ValueError:
  "\<not> pids_convert text \<Longrightarrow> parse_ps_os exited s (Output text) = Raises ValueError s []"
  by (simp add: parse_ps_os_def decoded_def)

lemma no_match_pids_convert:
  "\<forall>line \<in> set (split_nl out). match_line line = None \<Longrightarrow> pids_convert out"
  by (auto simp: pids_convert_def int_fails_def list_ex_iff)

lemma no_match_processes_found:
  assumes "\<forall>line \<in> set (split_nl out). match_line line = None"
  shows "processes_found cmds out = []"
proof -
  have "filter (\<lambda>l. match_line l \<noteq> None) (split_nl out) = []"
    using assms by (simp add: filter_empty_conv)
  then show ?thesis
    by (simp add: processes_found_skip)
qed

lemma parse_ps_os_no_match:
  assumes "\<forall>line \<in> set (split_nl out). match_line line = None"
  shows "parse_ps_os exited s (Output out) = Returns [] s []"
  using no_match_pids_convert [OF assms] no_match_processes_found [OF assms]
  by (simp add: parse_ps_os_def decoded_def)

text \<open>
  Claim C9. The scenario of the specification evaluates to the dictionary
  \<^verbatim>\<open>{"deluged": [123]}\<close>, with no handle touched and nothing reaped. A line matches
  exactly when it is white space, then a non-empty run of digits (whose decimal value is
  the pid), then one blank, then the details; white space and digits are those of
  \<^verbatim>\<open>\s\<close> and \<^verbatim>\<open>\d\<close> on the code points 0 to 255. The lines that do not match
  contribute no entry and raise nothing: a decoded listing none of whose lines matches
  makes the method return the empty dictionary, with no handle touched, and a decoded
  listing whose pids are within the interpreter's limit of digits raises nothing,
  whatever its other lines. The errors of the method come before the lines are split:
  \<^verbatim>\<open>ps\<close> that cannot be started, and output that is not UTF-8.
\<close>

theorem parse_ps_scenario_and_line_pattern:
  "parse_ps_os exited init_sentry
       (Output (''  123 deluged --flag'' @ [NL] @ '' 456 unrelated-proc'' @ [NL]))
     = Returns [(''deluged'', [123])] init_sentry []
   \<and> parse_ps init_sentry (''  123 deluged --flag'' @ [NL] @ '' 456 unrelated-proc'' @ [NL])
     = ([(''deluged'', [123])], init_sentry, [])
   \<and> (match_line l = Some (pid, details) \<longleftrightarrow>
        (\<exists>ws ds. l = ws @ ds @ CHR '' '' # details \<and> list_all is_space ws \<and> ds \<noteq> [] \<and>
           list_all is_digit ds \<and> pid = py_int ds \<and> NL \<notin> set details))
   \<and> processes_found cmds out =
        concat (map (line_matches cmds) (filter (\<lambda>l. match_line l \<noteq> None) (split_nl out)))
   \<and> ((\<forall>line \<in> set (split_nl out). match_line line = None) \<longrightarrow>
        parse_ps_os exited s (Output out) = Returns [] s [])
   \<and> (pids_convert out \<longrightarrow>
        (\<forall>e s' evs. parse_ps_os exited s (Output out) \<noteq> Raises e s' evs))
   \<and> parse_ps_os exited s Not_started = Raises (OSError ''ps'') s []
   \<and> parse_ps_os exited s Undecodable = Raises UnicodeDecodeError s []"
proof -
  have 1: "parse_ps init_sentry (''  123 deluged --flag'' @ [NL] @ '' 456 unrelated-proc'' @ [NL])
     = ([(''deluged'', [123])], init_sentry, [])"
    by (simp add: parse_ps_def init_sentry_def processes_found_def line_matches_def
        match_line_def NL_def is_space_def is_digit_def py_int_def digit_val_def add_pid_def
        is_defunct_def)
  have 2: "parse_ps_os exited init_sentry
       (Output (''  123 deluged --flag'' @ [NL] @ '' 456 unrelated-proc'' @ [NL]))
     = Returns [(''deluged'', [123])] init_sentry []"
    by (simp add: parse_ps_os_def decoded_def init_sentry_def processes_found_def
        line_matches_def match_line_def NL_def is_space_def is_digit_def py_int_def
        digit_val_def add_pid_def is_defunct_def pids_convert_def int_fails_def
        max_str_digits_def)
  have 3: "pids_convert out \<longrightarrow>
      (\<forall>e s' evs. parse_ps_os exited s (Output out) \<noteq> Raises e s' evs)"
    by (simp add: parse_ps_os_Output_no_error)
  have 4: "(\<forall>line \<in> set (split_nl out). match_line line = None) \<longrightarrow>
      parse_ps_os exited s (Output out) = Returns [] s []"
    by (rule impI) (rule parse_ps_os_no_match)
  show ?thesis
    by (intro conjI;
        (fact 1 2 3 4 match_line_iff processes_found_skip parse_ps_os_Not_started
           parse_ps_os_Undecodable))
qed

theorem parse_ps_scenario_and_line_pattern_witness:
  "match_line ''  123 deluged --flag'' = Some (123, ''deluged --flag'')
   \<and> (\<exists>ws ds. ''  123 deluged --flag'' = ws @ ds @ CHR '' '' # ''deluged --flag'' \<and>
         list_all is_space ws \<and> ds \<noteq> [] \<and> list_all is_digit ds \<and> 123 = py_int ds)
   \<and> match_line ([CHR 0xA0] @ '' 42 deluged'') = Some (42, ''deluged'')
   \<and> match_line ''  PID TTY  STAT  TIME COMMAND'' = None
   \<and> list_all (\<lambda>line. match_line line = None) (split_nl ps_none_running)
   \<and> parse_ps_os (\<lambda>h. False) owning_sentry (Output ps_none_running)
       = Returns [] owning_sentry []"
proof -
  have 1: "match_line ''  123 deluged --flag'' = Some (123, ''deluged --flag'')"
    by (simp add: match_line_def NL_def is_space_def is_digit_def py_int_def digit_val_def)
  have 2: "match_line ([CHR 0xA0] @ '' 42 deluged'') = Some (42, ''deluged'')"
    by (simp add: match_line_def NL_def is_space_def is_digit_def py_int_def digit_val_def)
  have 3: "match_line ''  PID TTY  STAT  TIME COMMAND'' = None"
    by (simp add: match_line_def NL_def is_space_def is_digit_def py_int_def digit_val_def)
  note t = parse_ps_scenario_and_line_pattern
      [where l = "''  123 deluged --flag''" and pid = 123 and details = "''deluged --flag''"]
  note m = t [THEN conjunct2, THEN conjunct2, THEN conjunct1]
  from m 1 have 4: "\<exists>ws ds. ''  123 deluged --flag'' = ws @ ds @ CHR '' '' # ''deluged --flag'' \<and>
         list_all is_space ws \<and> ds \<noteq> [] \<and> list_all is_digit ds \<and> 123 = py_int ds"
    by blast
  have 5: "list_all (\<lambda>line. match_line line = None) (split_nl ps_none_running)"
    by (simp add: ps_none_running_def match_line_def NL_def is_space_def is_digit_def)
  note u = parse_ps_scenario_and_line_pattern
      [where out = ps_none_running and s = owning_sentry and exited = "\<lambda>h. False"]
  note n = u [THEN conjunct2, THEN conjunct2, THEN conjunct2, THEN conjunct2, THEN conjunct1]
  from n 5 have 6: "parse_ps_os (\<lambda>h. False) owning_sentry (Output ps_none_running)
      = Returns [] owning_sentry []"
    by (simp add: list_all_iff)
  show ?thesis
    by (intro conjI; (fact 1 2 3 4 5 6))
qed

text \<open>
  Claim C3, as the code has it. A match marked defunct whose command has no handle is not
  dropped: it takes the branch of the live matches, and its pid is listed under its
  command. With no handle for the command, the pids listed under it are those of all its
  entries, defunct or not, in the order of the listing; no handle appears for it, and
  every \<^verbatim>\<open>wait\<close> of the call is on a handle of another command.
\<close>

theorem unowned_zombie_is_listed:
  assumes "map_of (processes s) cmd = None"
    and "(cmd, pid, details) \<in> set (processes_found (command_list s) out)"
    and "is_defunct details"
  shows "pid \<in> set (listed (fst (parse_ps s out)) cmd)
    \<and> listed (fst (parse_ps s out)) cmd =
         map fst (entries_for cmd (processes_found (command_list s) out))
    \<and> map_of (processes (fst (snd (parse_ps s out)))) cmd = None
    \<and> (\<forall>h. Wait h \<in> set (snd (snd (parse_ps s out))) \<longrightarrow>
          (\<exists>c. c \<noteq> cmd \<and> map_of (processes s) c = Some h))"
proof -
  let ?found = "processes_found (command_list s) out"
  have 1: "listed (fst (parse_ps s out)) cmd = map fst (entries_for cmd ?found)"
    using assms(1) by (simp add: parse_ps_cp classify_listed listed_Nil)
  have "(pid, details) \<in> set (entries_for cmd ?found)"
    using assms(2) by (force simp: entries_for_def)
  then have 2: "pid \<in> set (listed (fst (parse_ps s out)) cmd)"
    unfolding 1 by force
  have 3: "map_of (processes (fst (snd (parse_ps s out)))) cmd = None"
    using assms(1) by (simp add: parse_ps_state classify_procs)
  have 4: "\<exists>c. c \<noteq> cmd \<and> map_of (processes s) c = Some h"
    if "Wait h \<in> set (snd (snd (parse_ps s out)))" for h
  proof -
    from that obtain c h' where "Wait h = Wait h'" "map_of (processes s) c = Some h'"
      unfolding parse_ps_events using classify_events by blast
    moreover from this assms(1) have "c \<noteq> cmd" by auto
    ultimately show ?thesis by blast
  qed
  from 1 2 3 4 show ?thesis by blast
qed

theorem unowned_zombie_is_listed_witness:
  "map_of (processes init_sentry) ''deluged'' = None
   \<and> is_defunct ''?  Z  0:00 [deluged] <defunct>''
   \<and> 7 \<in> set (listed (fst (parse_ps init_sentry ''    7 ?  Z  0:00 [deluged] <defunct>''))
               ''deluged'')"
proof -
  have 1: "map_of (processes init_sentry) ''deluged'' = None"
    by (simp add: init_sentry_def)
  have 2: "is_defunct ''?  Z  0:00 [deluged] <defunct>''"
    by (simp add: is_defunct_def)
  have 3: "(''deluged'', 7, ''?  Z  0:00 [deluged] <defunct>'')
      \<in> set (processes_found (command_list init_sentry) ''    7 ?  Z  0:00 [deluged] <defunct>'')"
    by (simp add: init_sentry_def processes_found_def line_matches_def
        match_line_def NL_def is_space_def is_digit_def py_int_def digit_val_def)
  from unowned_zombie_is_listed [OF 1 3 2] 1 2 show ?thesis by blast
qed

theorem unowned_zombie_dropped_counterexample:
  "map_of (processes init_sentry) ''deluged'' = None
   \<and> is_defunct ''?  Z  0:00 [deluged] <defunct>''
   \<and> match_line ''    7 ?  Z  0:00 [deluged] <defunct>''
        = Some (7, ''?  Z  0:00 [deluged] <defunct>'')
   \<and> parse_ps init_sentry ''    7 ?  Z  0:00 [deluged] <defunct>''
        = ([(''deluged'', [7])], init_sentry, [])"
  by (simp add: parse_ps_def init_sentry_def processes_found_def line_matches_def
      match_line_def NL_def is_space_def is_digit_def py_int_def digit_val_def add_pid_def
      is_defunct_def)

section \<open>Traces\<close>

lemma os_kills_append: "os_kills (xs @ ys) = os_kills xs @ os_kills ys"
  by (induction xs rule: os_kills.induct) auto

lemma launches_append: "launches (xs @ ys) = launches xs @ launches ys"
  by (induction xs rule: launches.induct) auto

lemma os_kills_none: "(\<And>p. Os_kill p \<notin> set evs) \<Longrightarrow> os_kills evs = []"
  by (induction evs rule: os_kills.induct) auto

lemma launches_none: "(\<And>c. Spawn c \<notin> set evs) \<Longrightarrow> launches evs = []"
  by (induction evs rule: launches.induct) auto

lemma parse_ps_only_waits:
  "ev \<in> set (snd (snd (parse_ps s out))) \<Longrightarrow> \<exists>h. ev = Wait h"
  unfolding parse_ps_events using classify_events by blast

section \<open>Killing\<close>

lemma attempted_Nil: "attempted ex [] = []"
  by (simp add: attempted_def)

lemma attempted_Cons:
  "attempted ex (p # ps) = (if ex p then p # attempted ex ps else [p])"
  by (simp add: attempted_def)

lemma attempted_append:
  "attempted ex (xs @ ys) = (if list_all ex xs then xs @ attempted ex ys else attempted ex xs)"
  by (induction xs) (auto simp: attempted_Cons attempted_Nil)

lemma attempted_all: "list_all ex pids \<Longrightarrow> attempted ex pids = pids"
  by (induction pids) (auto simp: attempted_Cons attempted_Nil)

lemma attempted_stale:
  "list_all ex pre \<Longrightarrow> \<not> ex p \<Longrightarrow> attempted ex (pre @ p # post) = pre @ [p]"
  by (simp add: attempted_append attempted_Cons)

lemma kill_pids_os_kills: "os_kills (snd (kill_pids ex pids)) = attempted ex pids"
  by (induction pids) (auto simp: attempted_Cons attempted_Nil case_prod_beta)

lemma kill_pids_exc:
  "fst (kill_pids ex pids) =
     (case dropWhile ex pids of [] \<Rightarrow> None | p # ps \<Rightarrow> Some (ProcessLookupError p))"
  by (induction pids) (auto simp: case_prod_beta)

lemma kill_pids_None: "fst (kill_pids ex pids) = None \<longleftrightarrow> list_all ex pids"
  by (induction pids) (auto simp: case_prod_beta)

lemma kill_pids_events: "ev \<in> set (snd (kill_pids ex pids)) \<Longrightarrow> \<exists>p. ev = Os_kill p"
  by (induction pids) (auto simp: case_prod_beta split: if_splits)

lemma kill_cmds_os_kills:
  "os_kills (snd (kill_cmds ex cp)) = attempted ex (concat (map snd cp))"
proof (induction cp)
  case Nil
  then show ?case by (simp add: attempted_Nil)
next
  case (Cons a cp)
  obtain cmd pids where a: "a = (cmd, pids)" by (cases a)
  obtain r evs where k: "kill_pids ex pids = (r, evs)" by (cases "kill_pids ex pids")
  have o: "os_kills evs = attempted ex pids"
    using kill_pids_os_kills [of ex pids] k by simp
  have n: "r = None \<longleftrightarrow> list_all ex pids"
    using kill_pids_None [of ex pids] k by simp
  show ?case
  proof (cases r)
    case None
    with n have "list_all ex pids" by simp
    then show ?thesis
      using Cons.IH a k None o
      by (simp add: attempted_append attempted_all os_kills_append case_prod_beta)
  next
    case (Some e)
    with n have "\<not> list_all ex pids" by simp
    then show ?thesis
      using a k Some o by (simp add: attempted_append)
  qed
qed

lemma dropWhile_append_all: "list_all P xs \<Longrightarrow> dropWhile P (xs @ ys) = dropWhile P ys"
  by (induction xs) auto

lemma dropWhile_append_not_all:
  "\<not> list_all P xs \<Longrightarrow> dropWhile P (xs @ ys) = dropWhile P xs @ ys"
  by (induction xs) auto

lemma kill_cmds_exc:
  "fst (kill_cmds ex cp) =
     (case dropWhile ex (concat (map snd cp)) of
        [] \<Rightarrow> None | p # ps \<Rightarrow> Some (ProcessLookupError p))"
proof (induction cp)
  case Nil
  then show ?case by simp
next
  case (Cons a cp)
  obtain cmd pids where a: "a = (cmd, pids)" by (cases a)
  obtain r evs where k: "kill_pids ex pids = (r, evs)" by (cases "kill_pids ex pids")
  have e: "r = (case dropWhile ex pids of [] \<Rightarrow> None | p # ps \<Rightarrow> Some (ProcessLookupError p))"
    using kill_pids_exc [of ex pids] k by simp
  have n: "r = None \<longleftrightarrow> list_all ex pids"
    using kill_pids_None [of ex pids] k by simp
  show ?case
  proof (cases r)
    case None
    with n have "list_all ex pids" by simp
    then show ?thesis
      using Cons.IH a k None
      by (simp add: dropWhile_append_all case_prod_beta)
  next
    case (Some err)
    with n have na: "\<not> list_all ex pids" by simp
    then have "dropWhile ex pids \<noteq> []"
      by (simp add: list_all_iff)
    then show ?thesis
      using a k Some e na
      by (auto simp: dropWhile_append_not_all split: list.splits)
  qed
qed

lemma kill_cmds_events:
  "ev \<in> set (snd (kill_cmds ex cp)) \<Longrightarrow>
     (\<exists>p. ev = Os_kill p) \<or> (\<exists>c ps. ev = Print_killing c ps)"
proof (induction cp)
  case Nil
  then show ?case by simp
next
  case (Cons a cp)
  obtain cmd pids where a: "a = (cmd, pids)" by (cases a)
  obtain r evs where k: "kill_pids ex pids = (r, evs)" by (cases "kill_pids ex pids")
  have "\<And>ev. ev \<in> set evs \<Longrightarrow> \<exists>p. ev = Os_kill p"
    using kill_pids_events [of _ ex pids] k by simp
  then show ?case
    using Cons a k by (cases r) (auto simp: case_prod_beta)
qed

section \<open>Launching\<close>

lemma start_missing_launches:
  "launches (snd (snd (start_missing spawn running cmds procs))) =
     attempted (\<lambda>c. spawn c \<noteq> None) (filter (\<lambda>c. c \<notin> set running) cmds)"
  by (induction cmds arbitrary: procs)
     (auto simp: case_prod_beta attempted_Cons attempted_Nil split: option.splits)

lemma start_missing_exc:
  "fst (snd (start_missing spawn running cmds procs)) =
     (case dropWhile (\<lambda>c. spawn c \<noteq> None) (filter (\<lambda>c. c \<notin> set running) cmds) of
        [] \<Rightarrow> None | c # cs \<Rightarrow> Some (OSError c))"
  by (induction cmds arbitrary: procs) (auto simp: case_prod_beta split: option.splits)

lemma start_missing_procs:
  "map_of (fst (start_missing spawn running cmds procs)) x =
     (if x \<in> set (takeWhile (\<lambda>c. spawn c \<noteq> None) (filter (\<lambda>c. c \<notin> set running) cmds))
      then map_option (Popen x) (spawn x) else map_of procs x)"
  by (induction cmds arbitrary: procs)
     (auto simp: update_conv' case_prod_beta split: option.splits)

lemma start_missing_events:
  "ev \<in> set (snd (snd (start_missing spawn running cmds procs))) \<Longrightarrow>
     (\<exists>c. ev = Print_starting c) \<or> (\<exists>c. ev = Spawn c)"
  by (induction cmds arbitrary: procs)
     (auto simp: case_prod_beta split: if_splits option.splits)

lemma start_missing_keys:
  "fst ` set (fst (start_missing spawn running cmds procs)) \<subseteq> fst ` set procs \<union> set cmds"
proof (induction cmds arbitrary: procs)
  case Nil
  then show ?case by simp
next
  case (Cons cmd cmds)
  show ?case
  proof (cases "cmd \<in> set running \<or> spawn cmd = None")
    case True
    then show ?thesis using Cons.IH [of procs] by auto
  next
    case False
    then obtain pid where pid: "spawn cmd = Some pid" by auto
    have "fst ` set (fst (start_missing spawn running cmds
            (AList.update cmd (Popen cmd pid) procs)))
          \<subseteq> fst ` set (AList.update cmd (Popen cmd pid) procs) \<union> set cmds"
      by (rule Cons.IH)
    also have "\<dots> = {cmd} \<union> fst ` set procs \<union> set cmds"
      by (simp add: dom_update)
    finally show ?thesis
      using False pid by (auto simp: case_prod_beta)
  qed
qed

lemma start_missing_distinct:
  "distinct (map fst procs) \<Longrightarrow>
     distinct (map fst (fst (start_missing spawn running cmds procs)))"
  by (induction cmds arbitrary: procs)
     (auto simp: distinct_update case_prod_beta split: option.splits)

lemma attempted_take: "attempted ex xs = take (Suc (length (takeWhile ex xs))) xs"
  by (induction xs) (auto simp: attempted_Cons attempted_Nil)

lemma distinct_attempted: "distinct xs \<Longrightarrow> distinct (attempted ex xs)"
  by (simp add: attempted_take)

lemma set_attempted: "set (attempted ex xs) \<subseteq> set xs"
  unfolding attempted_take by (rule set_take_subset)

lemma count_list_distinct:
  "distinct xs \<Longrightarrow> count_list xs x = (if x \<in> set xs then 1 else 0)"
  by (induction xs) auto

section \<open>One iteration\<close>

lemma run_commands_state:
  "fst (run_commands s out spawn) =
     (fst (snd (parse_ps s out)))
       \<lparr>processes := fst (start_missing spawn (map fst (fst (parse_ps s out)))
                         (command_list s) (processes (fst (snd (parse_ps s out)))))\<rparr>"
  by (simp add: run_commands_def case_prod_beta parse_ps_state)

lemma run_commands_exc:
  "fst (snd (run_commands s out spawn)) =
     fst (snd (start_missing spawn (map fst (fst (parse_ps s out)))
                 (command_list s) (processes (fst (snd (parse_ps s out))))))"
  by (simp add: run_commands_def case_prod_beta parse_ps_state)

lemma run_commands_events:
  "snd (snd (run_commands s out spawn)) =
     snd (snd (parse_ps s out)) @
     snd (snd (start_missing spawn (map fst (fst (parse_ps s out)))
                 (command_list s) (processes (fst (snd (parse_ps s out))))))"
  by (simp add: run_commands_def case_prod_beta parse_ps_state)

lemma kill_processes_exc:
  "fst (kill_processes s out ex) = fst (kill_cmds ex (fst (parse_ps s out)))"
  by (simp add: kill_processes_def case_prod_beta)

lemma kill_processes_state:
  "fst (snd (kill_processes s out ex)) = fst (snd (parse_ps s out))"
  by (simp add: kill_processes_def case_prod_beta)

lemma kill_processes_events:
  "snd (snd (kill_processes s out ex)) =
     snd (snd (parse_ps s out)) @ snd (kill_cmds ex (fst (parse_ps s out)))"
  by (simp add: kill_processes_def case_prod_beta)

lemma run_commands_event_kinds:
  "ev \<in> set (snd (snd (run_commands s out spawn))) \<Longrightarrow>
     (\<exists>h. ev = Wait h) \<or> (\<exists>c. ev = Print_starting c) \<or> (\<exists>c. ev = Spawn c)"
  unfolding run_commands_events
  using parse_ps_only_waits start_missing_events by fastforce

lemma kill_processes_event_kinds:
  "ev \<in> set (snd (snd (kill_processes s out ex))) \<Longrightarrow>
     (\<exists>h. ev = Wait h) \<or> (\<exists>p. ev = Os_kill p) \<or> (\<exists>c ps. ev = Print_killing c ps)"
  unfolding kill_processes_events
  using parse_ps_only_waits kill_cmds_events by fastforce

lemma run_commands_launches:
  "launches (snd (snd (run_commands s out spawn))) =
     attempted (\<lambda>c. spawn c \<noteq> None)
       (filter (\<lambda>c. c \<notin> fst ` set (fst (parse_ps s out))) (command_list s))"
proof -
  have "launches (snd (snd (parse_ps s out))) = []"
    using parse_ps_only_waits [of _ s out] by (intro launches_none) auto
  then show ?thesis
    by (simp add: run_commands_events launches_append start_missing_launches parse_ps_state)
qed

lemma run_commands_os_kills: "os_kills (snd (snd (run_commands s out spawn))) = []"
  using run_commands_event_kinds [of _ s out spawn] by (intro os_kills_none) auto

lemma kill_processes_launches: "launches (snd (snd (kill_processes s out ex))) = []"
  using kill_processes_event_kinds [of _ s out ex] by (intro launches_none) auto

lemma kill_processes_os_kills:
  "os_kills (snd (snd (kill_processes s out ex))) =
     attempted ex (concat (map snd (fst (parse_ps s out))))"
proof -
  have "os_kills (snd (snd (parse_ps s out))) = []"
    using parse_ps_only_waits [of _ s out] by (intro os_kills_none) auto
  then show ?thesis
    by (simp add: kill_processes_events os_kills_append kill_cmds_os_kills)
qed

text \<open>The result of an iteration, by the answer of the probe.\<close>

lemma tick_connected:
  "check_vpn (status_output env) \<Longrightarrow>
     tick c s env =
       (case fst (snd (run_commands s (ps_output env) (child_pid env))) of
          Some e \<Rightarrow> Some e
        | None \<Rightarrow> if sigint env then Some KeyboardInterrupt else None,
        True,
        fst (run_commands s (ps_output env) (child_pid env)),
        (if \<not> c then [Print_connected] else [])
          @ snd (snd (run_commands s (ps_output env) (child_pid env)))
          @ (case fst (snd (run_commands s (ps_output env) (child_pid env))) of
               Some e \<Rightarrow> []
             | None \<Rightarrow>
                 [Sleep (poll_rate (fst (run_commands s (ps_output env) (child_pid env))))]))"
  by (cases "run_commands s (ps_output env) (child_pid env)")
     (auto simp: tick_def split: option.splits)

lemma tick_disconnected:
  "\<not> check_vpn (status_output env) \<Longrightarrow>
     tick c s env =
       (case fst (kill_processes s (ps_output env) (pid_exists env)) of
          Some e \<Rightarrow> Some e
        | None \<Rightarrow> if sigint env then Some KeyboardInterrupt else None,
        False,
        fst (snd (kill_processes s (ps_output env) (pid_exists env))),
        (if c then [Print_disconnected] else [])
          @ snd (snd (kill_processes s (ps_output env) (pid_exists env)))
          @ (case fst (kill_processes s (ps_output env) (pid_exists env)) of
               Some e \<Rightarrow> [] | None \<Rightarrow> [Print_connecting, Connect_vpn]))"
  by (cases "kill_processes s (ps_output env) (pid_exists env)")
     (auto simp: tick_def split: option.splits)

lemma tick_flag: "flag_of (tick c s env) = check_vpn (status_output env)"
  by (cases "check_vpn (status_output env)")
     (simp_all add: flag_of_def tick_connected tick_disconnected)

lemma tick_launches:
  "launches (trace_of (tick c s env)) =
     (if check_vpn (status_output env)
      then attempted (\<lambda>cmd. child_pid env cmd \<noteq> None)
             (filter (\<lambda>cmd. cmd \<notin> fst ` set (fst (parse_ps s (ps_output env))))
                (command_list s))
      else [])"
  by (cases "check_vpn (status_output env)")
     (auto simp: trace_of_def tick_connected tick_disconnected launches_append
        run_commands_launches kill_processes_launches split: option.splits)

lemma tick_os_kills:
  "os_kills (trace_of (tick c s env)) =
     (if check_vpn (status_output env) then []
      else attempted (pid_exists env) (concat (map snd (fst (parse_ps s (ps_output env))))))"
  by (cases "check_vpn (status_output env)")
     (auto simp: trace_of_def tick_connected tick_disconnected os_kills_append
        run_commands_os_kills kill_processes_os_kills split: option.splits)

lemma tick_exc:
  "exc_of (tick c s env) =
     (if check_vpn (status_output env)
      then (case dropWhile (\<lambda>cmd. child_pid env cmd \<noteq> None)
                   (filter (\<lambda>cmd. cmd \<notin> fst ` set (fst (parse_ps s (ps_output env))))
                      (command_list s)) of
              cmd # cmds \<Rightarrow> Some (OSError cmd)
            | [] \<Rightarrow> if sigint env then Some KeyboardInterrupt else None)
      else (case dropWhile (pid_exists env) (concat (map snd (fst (parse_ps s (ps_output env))))) of
              p # ps \<Rightarrow> Some (ProcessLookupError p)
            | [] \<Rightarrow> if sigint env then Some KeyboardInterrupt else None))"
proof (cases "check_vpn (status_output env)")
  case True
  show ?thesis
    by (cases "dropWhile (\<lambda>cmd. child_pid env cmd \<noteq> None)
                 (filter (\<lambda>cmd. cmd \<notin> fst ` set (fst (parse_ps s (ps_output env))))
                    (command_list s))")
       (simp_all only: exc_of_def tick_connected [OF True] run_commands_exc start_missing_exc
          parse_ps_state True if_True fst_conv list.case option.case set_map
          sentry.simps)
next
  case False
  show ?thesis
    by (cases "dropWhile (pid_exists env) (concat (map snd (fst (parse_ps s (ps_output env)))))")
       (simp_all only: exc_of_def tick_disconnected [OF False] kill_processes_exc kill_cmds_exc
          False if_False fst_conv list.case option.case)
qed

lemma tick_state:
  "state_of (tick c s env) =
     (if check_vpn (status_output env)
      then fst (run_commands s (ps_output env) (child_pid env))
      else fst (snd (parse_ps s (ps_output env))))"
  by (cases "check_vpn (status_output env)")
     (simp_all add: state_of_def tick_connected tick_disconnected kill_processes_state)

lemma tick_connect_edge:
  "count_list (trace_of (tick c s env)) Print_connected =
     (if check_vpn (status_output env) \<and> \<not> c then 1 else 0)"
proof (cases "check_vpn (status_output env)")
  case True
  have "Print_connected \<notin> set (snd (snd (run_commands s (ps_output env) (child_pid env))))"
    using run_commands_event_kinds by blast
  then show ?thesis
    using True by (simp add: trace_of_def tick_connected split: option.splits)
next
  case False
  have "Print_connected \<notin> set (snd (snd (kill_processes s (ps_output env) (pid_exists env))))"
    using kill_processes_event_kinds by blast
  then show ?thesis
    using False by (simp add: trace_of_def tick_disconnected split: option.splits)
qed

lemma tick_disconnect_edge:
  "count_list (trace_of (tick c s env)) Print_disconnected =
     (if \<not> check_vpn (status_output env) \<and> c then 1 else 0)"
proof (cases "check_vpn (status_output env)")
  case True
  have "Print_disconnected \<notin> set (snd (snd (run_commands s (ps_output env) (child_pid env))))"
    using run_commands_event_kinds by blast
  then show ?thesis
    using True by (simp add: trace_of_def tick_connected split: option.splits)
next
  case False
  have "Print_disconnected \<notin> set (snd (snd (kill_processes s (ps_output env) (pid_exists env))))"
    using kill_processes_event_kinds by blast
  then show ?thesis
    using False by (simp add: trace_of_def tick_disconnected split: option.splits)
qed

section \<open>The handle map\<close>

lemma parse_ps_command_list: "command_list (fst (snd (parse_ps s out))) = command_list s"
  by (simp add: parse_ps_state)

lemma run_commands_command_list: "command_list (fst (run_commands s out spawn)) = command_list s"
  by (simp add: run_commands_state parse_ps_state)

lemma parse_ps_handles_ok: "handles_ok s \<Longrightarrow> handles_ok (fst (snd (parse_ps s out)))"
  unfolding handles_ok_def parse_ps_state
  using classify_keys [of "processes_found (command_list s) out" "processes s" "[]"]
    classify_distinct [of "processes s" "processes_found (command_list s) out" "[]"]
  by auto

lemma run_commands_handles_ok:
  assumes "handles_ok s"
  shows "handles_ok (fst (run_commands s out spawn))"
proof -
  let ?s = "fst (snd (parse_ps s out))"
  let ?procs = "fst (start_missing spawn (map fst (fst (parse_ps s out)))
                       (command_list s) (processes ?s))"
  have ok: "handles_ok ?s"
    using assms by (rule parse_ps_handles_ok)
  have "fst ` set ?procs \<subseteq> fst ` set (processes ?s) \<union> set (command_list s)"
    by (rule start_missing_keys)
  moreover have "fst ` set (processes ?s) \<subseteq> set (command_list s)"
    using ok by (simp add: handles_ok_def parse_ps_command_list)
  moreover have "distinct (map fst ?procs)"
    using ok by (intro start_missing_distinct) (simp add: handles_ok_def)
  ultimately have "fst ` set ?procs \<subseteq> set (command_list s) \<and> distinct (map fst ?procs)"
    by blast
  then show ?thesis
    by (simp add: handles_ok_def run_commands_state parse_ps_command_list)
qed

lemma kill_processes_handles_ok:
  "handles_ok s \<Longrightarrow> handles_ok (fst (snd (kill_processes s out ex)))"
  by (simp add: kill_processes_state parse_ps_handles_ok)

lemma tick_handles_ok: "handles_ok s \<Longrightarrow> handles_ok (state_of (tick c s env))"
  by (simp add: tick_state run_commands_handles_ok parse_ps_handles_ok)

lemma tick_command_list: "command_list (state_of (tick c s env)) = command_list s"
  by (simp add: tick_state run_commands_command_list parse_ps_command_list)

section \<open>The loop\<close>

lemma loop_from_stop:
  "exc_of (tick c s env) = Some e \<Longrightarrow> loop_from c s (env # envs) = tick c s env"
  by (cases "tick c s env") (auto simp: exc_of_def)

lemma loop_from_continue:
  "exc_of (tick c s env) = None \<Longrightarrow>
     loop_from c s (env # envs) =
       (exc_of (loop_from (flag_of (tick c s env)) (state_of (tick c s env)) envs),
        flag_of (loop_from (flag_of (tick c s env)) (state_of (tick c s env)) envs),
        state_of (loop_from (flag_of (tick c s env)) (state_of (tick c s env)) envs),
        trace_of (tick c s env)
          @ trace_of (loop_from (flag_of (tick c s env)) (state_of (tick c s env)) envs))"
  by (cases "tick c s env")
     (auto simp: exc_of_def flag_of_def state_of_def trace_of_def case_prod_beta)

lemma loop_from_handles_ok: "handles_ok s \<Longrightarrow> handles_ok (state_of (loop_from c s envs))"
proof (induction envs arbitrary: c s)
  case Nil
  then show ?case by (simp add: state_of_def)
next
  case (Cons env envs)
  show ?case
  proof (cases "exc_of (tick c s env)")
    case None
    have "handles_ok (state_of (loop_from (flag_of (tick c s env)) (state_of (tick c s env)) envs))"
      using Cons.prems by (intro Cons.IH tick_handles_ok)
    then show ?thesis
      unfolding loop_from_continue [OF None] by (simp add: state_of_def)
  next
    case (Some e)
    then show ?thesis
      using Cons.prems unfolding loop_from_stop [OF Some] by (simp add: tick_handles_ok)
  qed
qed

lemma loop_from_connect_edges:
  "exc_of (loop_from c s envs) = None \<Longrightarrow>
     count_list (trace_of (loop_from c s envs)) Print_connected =
       connect_edges c (map (\<lambda>env. check_vpn (status_output env)) envs)"
proof (induction envs arbitrary: c s)
  case Nil
  then show ?case by (simp add: trace_of_def)
next
  case (Cons env envs)
  show ?case
  proof (cases "exc_of (tick c s env)")
    case None
    let ?L = "loop_from (flag_of (tick c s env)) (state_of (tick c s env)) envs"
    from Cons.prems have "exc_of ?L = None"
      unfolding loop_from_continue [OF None] by (simp add: exc_of_def)
    then have "count_list (trace_of ?L) Print_connected =
        connect_edges (check_vpn (status_output env))
          (map (\<lambda>env. check_vpn (status_output env)) envs)"
      using Cons.IH by (simp add: tick_flag)
    then show ?thesis
      unfolding loop_from_continue [OF None]
      by (simp add: trace_of_def [of "(a, b)" for a b] tick_connect_edge)
  next
    case (Some e)
    then show ?thesis
      using Cons.prems unfolding loop_from_stop [OF Some] by simp
  qed
qed

lemma loop_from_disconnect_edges:
  "exc_of (loop_from c s envs) = None \<Longrightarrow>
     count_list (trace_of (loop_from c s envs)) Print_disconnected =
       disconnect_edges c (map (\<lambda>env. check_vpn (status_output env)) envs)"
proof (induction envs arbitrary: c s)
  case Nil
  then show ?case by (simp add: trace_of_def)
next
  case (Cons env envs)
  show ?case
  proof (cases "exc_of (tick c s env)")
    case None
    let ?L = "loop_from (flag_of (tick c s env)) (state_of (tick c s env)) envs"
    from Cons.prems have "exc_of ?L = None"
      unfolding loop_from_continue [OF None] by (simp add: exc_of_def)
    then have "count_list (trace_of ?L) Print_disconnected =
        disconnect_edges (check_vpn (status_output env))
          (map (\<lambda>env. check_vpn (status_output env)) envs)"
      using Cons.IH by (simp add: tick_flag)
    then show ?thesis
      unfolding loop_from_continue [OF None]
      by (simp add: trace_of_def [of "(a, b)" for a b] tick_disconnect_edge)
  next
    case (Some e)
    then show ?thesis
      using Cons.prems unfolding loop_from_stop [OF Some] by simp
  qed
qed

lemma tick_no_terminated: "Print_terminated \<notin> set (trace_of (tick c s env))"
proof (cases "check_vpn (status_output env)")
  case True
  have "Print_terminated \<notin> set (snd (snd (run_commands s (ps_output env) (child_pid env))))"
    using run_commands_event_kinds by blast
  then show ?thesis
    using True by (simp add: trace_of_def tick_connected split: option.splits)
next
  case False
  have "Print_terminated \<notin> set (snd (snd (kill_processes s (ps_output env) (pid_exists env))))"
    using kill_processes_event_kinds by blast
  then show ?thesis
    using False by (simp add: trace_of_def tick_disconnected split: option.splits)
qed

lemma loop_from_no_terminated: "Print_terminated \<notin> set (trace_of (loop_from c s envs))"
proof (induction envs arbitrary: c s)
  case Nil
  then show ?case by (simp add: trace_of_def)
next
  case (Cons env envs)
  show ?case
  proof (cases "exc_of (tick c s env)")
    case None
    show ?thesis
      unfolding loop_from_continue [OF None]
      using Cons.IH tick_no_terminated [of c s env]
      by (simp add: trace_of_def [of "(a, b)" for a b])
  next
    case (Some e)
    show ?thesis
      unfolding loop_from_stop [OF Some] by (rule tick_no_terminated)
  qed
qed

lemma run_stopped:
  "exc_of (loop s envs) = Some e \<Longrightarrow>
     run s envs fps fex =
       (case fst (kill_processes (state_of (loop s envs)) fps fex) of
          Some e' \<Rightarrow> Some e' | None \<Rightarrow> Some e,
        fst (snd (kill_processes (state_of (loop s envs)) fps fex)),
        trace_of (loop s envs) @ Print_terminated #
          snd (snd (kill_processes (state_of (loop s envs)) fps fex)))"
  by (cases "loop s envs")
     (auto simp: run_def exc_of_def state_of_def trace_of_def case_prod_beta)

lemma run_running:
  "exc_of (loop s envs) = None \<Longrightarrow>
     run s envs fps fex = (None, state_of (loop s envs), trace_of (loop s envs))"
  by (cases "loop s envs")
     (auto simp: run_def exc_of_def state_of_def trace_of_def)

lemma run_handles_ok:
  assumes "handles_ok s"
  shows "handles_ok (fst (snd (run s envs fps fex)))"
proof -
  have ok: "handles_ok (state_of (loop s envs))"
    unfolding loop_def using assms by (rule loop_from_handles_ok)
  show ?thesis
  proof (cases "exc_of (loop s envs)")
    case None
    then show ?thesis
      using ok by (simp add: run_running)
  next
    case (Some e)
    then show ?thesis
      using ok by (simp add: run_stopped kill_processes_handles_ok)
  qed
qed

section \<open>Waits that return and waits that block\<close>

text \<open>
  When every \<^verbatim>\<open>wait\<close> of the loop is on a child that has exited, the loop with the
  answers of the operating system returns what \<open>classify\<close> gives.
\<close>

lemma classify_os_returns:
  "(\<And>h. Wait h \<in> set (snd (snd (classify found procs cp))) \<Longrightarrow> exited h) \<Longrightarrow>
     classify_os exited found procs cp = (True, classify found procs cp)"
proof (induction found procs cp rule: classify.induct)
  case (1 procs cp)
  then show ?case by simp
next
  case (2 cmd pid details found procs cp)
  show ?case
  proof (cases "if is_defunct details then map_of procs cmd else None")
    case None
    have "classify_os exited found procs (add_pid cmd pid cp)
        = (True, classify found procs (add_pid cmd pid cp))"
      using 2(3) None by (intro 2(1) [OF None]) simp
    then show ?thesis
      using None by simp
  next
    case (Some h)
    have w: "Wait h' \<in> set (snd (snd (classify ((cmd, pid, details) # found) procs cp)))"
      if "h' = h \<or> Wait h' \<in> set (snd (snd (classify found (AList.delete cmd procs) cp)))"
      for h'
      using that Some by (auto simp: case_prod_beta)
    have e: "exited h"
      using 2(3) w by blast
    have "classify_os exited found (AList.delete cmd procs) cp
        = (True, classify found (AList.delete cmd procs) cp)"
      using 2(3) w by (intro 2(2) [OF Some]) blast
    then show ?thesis
      using Some e by (simp add: case_prod_beta)
  qed
qed


lemma waits_return_events:
  assumes "waits_return exited s text"
    and "Wait h \<in> set (snd (snd (classify (processes_found (command_list s) text)
                                      (processes s) cp)))"
  shows "exited h"
proof -
  from assms(2) obtain c h' where c: "Wait h = Wait h'" "map_of (processes s) c = Some h'"
      "\<exists>e \<in> set (entries_for c (processes_found (command_list s) text)). is_defunct (snd e)"
    using classify_events by blast
  from c(2) have "(c, h') \<in> set (processes s)"
    by (rule map_of_SomeD)
  with assms(1) c(3) have "exited h'"
    unfolding waits_return_def by blast
  with c(1) show ?thesis by simp
qed

lemma parse_ps_os_returns:
  assumes "waits_return exited s text" and "pids_convert text"
  shows "parse_ps_os exited s (Output text) =
           Returns (fst (parse_ps s text)) (fst (snd (parse_ps s text)))
             (snd (snd (parse_ps s text)))"
proof -
  have "classify_os exited (processes_found (command_list s) text) (processes s) []
      = (True, classify (processes_found (command_list s) text) (processes s) [])"
    using waits_return_events [OF assms(1)] by (intro classify_os_returns)
  then show ?thesis
    using assms(2) by (simp add: parse_ps_os_def decoded_def parse_ps_def case_prod_beta)
qed


text \<open>
  An iteration in which both commands gave text, the pids convert and every \<^verbatim>\<open>wait\<close>
  returns ends with the result of \<open>tick\<close>; one in which a \<^verbatim>\<open>wait\<close> is on a running
  child is stuck.
\<close>

lemma tick_os_ends:
  assumes "status_answer env = Output st" and "ps_answer env = Output ps"
    and "waits_return (child_exited env) s ps" and "pids_convert ps"
  shows "tick_os c s env = Ended (tick c s (as_tick_env env st ps))"
proof -
  note p = parse_ps_os_returns [OF assms(3,4)]
  show ?thesis
  proof (cases "check_vpn st")
    case True
    obtain s' r evs where rc: "run_commands s ps (popen_child env) = (s', r, evs)"
      by (cases "run_commands s ps (popen_child env)") auto
    have "run_commands_os (child_exited env) s (Output ps) (popen_child env) =
        (case r of None \<Rightarrow> Returns () s' evs | Some e \<Rightarrow> Raises e s' evs)"
      using rc
      by (auto simp: run_commands_os_def p run_commands_def case_prod_beta
            split: option.splits)
    then show ?thesis
      using True rc assms(1,2)
      by (cases r)
         (simp_all add: tick_os_def tick_def as_tick_env_def check_vpn_os_Output)
  next
    case False
    obtain r s' evs where kp: "kill_processes s ps (kill_finds env) = (r, s', evs)"
      by (cases "kill_processes s ps (kill_finds env)") auto
    have "kill_processes_os (child_exited env) s (Output ps) (kill_finds env) =
        (case r of None \<Rightarrow> Returns () s' evs | Some e \<Rightarrow> Raises e s' evs)"
      using kp
      by (auto simp: kill_processes_os_def p kill_processes_def case_prod_beta
            split: option.splits)
    then show ?thesis
      using False kp assms(1,2)
      by (cases r)
         (simp_all add: tick_os_def tick_def as_tick_env_def check_vpn_os_Output)
  qed
qed


section \<open>Evaluation of the examples\<close>

lemmas eval_defs = parse_ps_def init_sentry_def processes_found_def line_matches_def
  match_line_def NL_def is_space_def is_digit_def py_int_def digit_val_def add_pid_def
  is_defunct_def check_vpn_def match_status_def is_word_def latin1_word_def
  ps_two_running_def ps_two_zombies_def ps_none_running_def ps_unowned_zombie_def
  ps_foreign_zombie_def env_down_def env_down_stale_def env_up_def env_up_running_def
  os_up_def os_up_missing_def os_up_zombie_def owning_sentry_def web_owner_def
  os_two_zombies_def os_foreign_zombie_def tick_def kill_processes_def run_commands_def
  trace_of_def exc_of_def state_of_def flag_of_def loop_def run_def listed_def
  decoded_def check_vpn_os_def parse_ps_os_def run_commands_os_def kill_processes_os_def
  tick_os_def pids_convert_def int_fails_def max_str_digits_def

section \<open>The claims about an iteration\<close>

text \<open>
  Claim C1, as the code has it. On an iteration whose probe reports disconnected, the
  loop calls \<^verbatim>\<open>os.kill\<close> on the pids of the enumeration in their order, up to and
  including the first one that no longer exists: the \<^verbatim>\<open>ProcessLookupError\<close> of that call
  is not caught, so the pids after it get no signal. When every pid still exists, every
  pid of the enumeration is signalled. No launch is made during the iteration.
\<close>

theorem disconnected_tick_kills_until_stale_pid:
  assumes "\<not> check_vpn (status_output env)"
  shows "os_kills (trace_of (tick c s env)) =
           attempted (pid_exists env) (concat (map snd (fst (parse_ps s (ps_output env)))))
    \<and> (list_all (pid_exists env) (concat (map snd (fst (parse_ps s (ps_output env))))) \<longrightarrow>
         os_kills (trace_of (tick c s env)) = concat (map snd (fst (parse_ps s (ps_output env)))))
    \<and> launches (trace_of (tick c s env)) = []"
  using assms by (simp add: tick_os_kills tick_launches attempted_all)

theorem disconnected_tick_kills_until_stale_pid_witness:
  "\<not> check_vpn (status_output env_down)
   \<and> list_all (pid_exists env_down)
       (concat (map snd (fst (parse_ps init_sentry (ps_output env_down)))))
   \<and> os_kills (trace_of (tick True init_sentry env_down)) = [101, 102]
   \<and> launches (trace_of (tick True init_sentry env_down)) = []"
proof -
  have 1: "\<not> check_vpn (status_output env_down)"
    by (simp add: eval_defs)
  have 2: "concat (map snd (fst (parse_ps init_sentry (ps_output env_down)))) = [101, 102]"
    by (simp add: eval_defs)
  have 3: "list_all (pid_exists env_down) [101, 102]"
    by (simp add: env_down_def)
  from disconnected_tick_kills_until_stale_pid [OF 1, of True init_sentry] 1 2 3
  show ?thesis by (simp add: attempted_Cons attempted_Nil)
qed

theorem disconnected_tick_kills_every_pid_counterexample:
  "\<not> check_vpn (status_output env_down_stale)
   \<and> fst (parse_ps init_sentry (ps_output env_down_stale))
       = [(''deluged'', [101]), (''deluge-web'', [102])]
   \<and> trace_of (tick False init_sentry env_down_stale)
       = [Print_killing ''deluged'' [101], Os_kill 101]
   \<and> Os_kill 102 \<notin> set (trace_of (tick False init_sentry env_down_stale))"
  by (simp add: eval_defs)

lemma attempted_ok_in_takeWhile:
  "x \<in> set (attempted ex xs) \<Longrightarrow> ex x \<Longrightarrow> x \<in> set (takeWhile ex xs)"
  by (induction xs) (auto simp: attempted_Cons attempted_Nil split: if_splits)

lemma map_of_add_pid:
  "map_of (add_pid c p cp) x = (if x = c then Some (listed cp c @ [p]) else map_of cp x)"
  by (simp add: add_pid_def listed_def update_conv' split: option.splits)

lemma classify_cp_nonempty:
  "(\<And>x pids. map_of cp x = Some pids \<Longrightarrow> pids \<noteq> []) \<Longrightarrow>
     map_of (fst (classify found procs cp)) x = Some pids \<Longrightarrow> pids \<noteq> []"
proof (induction found procs cp rule: classify.induct)
  case (1 procs cp)
  then show ?case by simp
next
  case (2 cmd pid details found procs cp)
  show ?case
  proof (cases "if is_defunct details then map_of procs cmd else None")
    case None
    have a: "\<And>x pids. map_of (add_pid cmd pid cp) x = Some pids \<Longrightarrow> pids \<noteq> []"
      using 2(3) by (auto simp: map_of_add_pid split: if_splits)
    show ?thesis
      using 2(1) [OF None a] 2(4) None by simp
  next
    case (Some h)
    show ?thesis
      using 2(2) [OF Some 2(3)] 2(4) Some by (simp add: case_prod_beta)
  qed
qed

lemma parse_ps_key_iff:
  "x \<in> fst ` set (fst (parse_ps s out)) \<longleftrightarrow>
     (if map_of (processes s) x = None
      then entries_for x (processes_found (command_list s) out)
      else drop_first_defunct (entries_for x (processes_found (command_list s) out))) \<noteq> []"
proof -
  let ?cp = "fst (classify (processes_found (command_list s) out) (processes s) [])"
  have "x \<in> fst ` set ?cp \<longleftrightarrow> map_of ?cp x \<noteq> None"
    by (simp add: map_of_eq_None_iff)
  also have "\<dots> \<longleftrightarrow> listed ?cp x \<noteq> []"
    using classify_cp_nonempty [where cp = "[]" and x = x
        and found = "processes_found (command_list s) out" and procs = "processes s"]
    by (auto simp: listed_def split: option.splits)
  finally show ?thesis
    by (simp add: parse_ps_cp classify_listed listed_Nil)
qed

text \<open>
  Claim C2, as the code has it. Take an iteration whose probe reports connected, in which
  the listing decodes, its pids convert and every \<^verbatim>\<open>wait\<close> of the enumeration returns,
  and let no command be named twice in \<^verbatim>\<open>command_list\<close>. The enumeration returns, and
  the loop calls \<^verbatim>\<open>Popen\<close> on the managed commands that are not keys of its result, in the
  order of \<^verbatim>\<open>command_list\<close> and whether or not a handle is held for them, up to and
  including the first call that raises; that exception is not caught and ends the
  iteration. No command is launched twice, a command that is a key of the result is not
  launched, and the handle of the new child is recorded for every launch that succeeded.
  When every managed command can be started, each one that is not a key is launched
  exactly once. A command is a key when it has a listed entry that was not reaped, defunct
  or not: for a command without a handle, when it has any entry at all, so that a command
  whose only entry is a zombie of another parent counts as running and is not launched.
\<close>

theorem connected_tick_launches_unlisted_commands:
  assumes "status_answer env = Output st" and "check_vpn st"
    and "ps_answer env = Output ps" and "pids_convert ps"
    and "waits_return (child_exited env) s ps"
    and "distinct (command_list s)"
  shows "\<exists>cp s' evs r.
      parse_ps_os (child_exited env) s (Output ps) = Returns cp s' evs
    \<and> tick_os c s env = Ended r
    \<and> launches (trace_of r) =
        attempted (\<lambda>cmd. popen_child env cmd \<noteq> None)
          (filter (\<lambda>cmd. cmd \<notin> fst ` set cp) (command_list s))
    \<and> (\<forall>cmd. count_list (launches (trace_of r)) cmd \<le> 1)
    \<and> (\<forall>cmd. cmd \<in> fst ` set cp \<longrightarrow> count_list (launches (trace_of r)) cmd = 0)
    \<and> (\<forall>cmd pid. cmd \<in> set (launches (trace_of r)) \<and> popen_child env cmd = Some pid \<longrightarrow>
          map_of (processes (state_of r)) cmd = Some (Popen cmd pid))
    \<and> ((\<forall>cmd \<in> set (command_list s). popen_child env cmd \<noteq> None) \<longrightarrow>
          (\<forall>cmd \<in> set (command_list s).
             count_list (launches (trace_of r)) cmd = (if cmd \<in> fst ` set cp then 0 else 1)))
    \<and> (\<forall>cmd. cmd \<in> fst ` set cp \<longleftrightarrow>
          (if map_of (processes s) cmd = None
           then entries_for cmd (processes_found (command_list s) ps)
           else drop_first_defunct (entries_for cmd (processes_found (command_list s) ps)))
          \<noteq> [])
    \<and> exc_of r =
        (case dropWhile (\<lambda>cmd. popen_child env cmd \<noteq> None)
                (filter (\<lambda>cmd. cmd \<notin> fst ` set cp) (command_list s)) of
           cmd # cmds \<Rightarrow> Some (OSError cmd)
         | [] \<Rightarrow> if interrupted env then Some KeyboardInterrupt else None)"
proof -
  let ?env = "as_tick_env env st ps"
  let ?cp = "fst (parse_ps s ps)"
  let ?s1 = "fst (snd (parse_ps s ps))"
  let ?ev1 = "snd (snd (parse_ps s ps))"
  let ?r = "tick c s ?env"
  let ?keys = "fst ` set ?cp"
  let ?missing = "filter (\<lambda>cmd. cmd \<notin> ?keys) (command_list s)"
  let ?ok = "\<lambda>cmd. popen_child env cmd \<noteq> None"
  let ?l = "launches (trace_of ?r)"
  have e: "status_output ?env = st" "ps_output ?env = ps" "child_pid ?env = popen_child env"
    "sigint ?env = interrupted env"
    by (simp_all add: as_tick_env_def)
  have up: "check_vpn (status_output ?env)"
    using assms(2) by (simp add: e)
  have P: "parse_ps_os (child_exited env) s (Output ps) = Returns ?cp ?s1 ?ev1"
    using assms(5,4) by (rule parse_ps_os_returns)
  have T: "tick_os c s env = Ended ?r"
    using assms(1,3,5,4) by (rule tick_os_ends)
  have 1: "?l = attempted ?ok ?missing"
    using up by (simp add: tick_launches e)
  have dm: "distinct ?missing"
    using assms(6) by simp
  have d: "distinct ?l"
    unfolding 1 using dm by (rule distinct_attempted)
  have sub: "set ?l \<subseteq> set ?missing"
    unfolding 1 by (rule set_attempted)
  have 2: "\<forall>cmd. count_list ?l cmd \<le> 1"
    using d by (simp add: count_list_distinct)
  have 3: "\<forall>cmd. cmd \<in> ?keys \<longrightarrow> count_list ?l cmd = 0"
    using sub by (auto simp: count_list_0_iff)
  have 4: "\<forall>cmd pid. cmd \<in> set ?l \<and> popen_child env cmd = Some pid \<longrightarrow>
      map_of (processes (state_of ?r)) cmd = Some (Popen cmd pid)"
  proof (intro allI impI, elim conjE)
    fix cmd pid
    assume a: "cmd \<in> set ?l" "popen_child env cmd = Some pid"
    then have "cmd \<in> set (takeWhile ?ok ?missing)"
      unfolding 1 by (intro attempted_ok_in_takeWhile) simp_all
    then show "map_of (processes (state_of ?r)) cmd = Some (Popen cmd pid)"
      using up a(2)
      by (simp add: tick_state run_commands_state start_missing_procs parse_ps_state e)
  qed
  have 5: "(\<forall>cmd \<in> set (command_list s). popen_child env cmd \<noteq> None) \<longrightarrow>
      (\<forall>cmd \<in> set (command_list s). count_list ?l cmd = (if cmd \<in> ?keys then 0 else 1))"
  proof (rule impI)
    assume all: "\<forall>cmd \<in> set (command_list s). popen_child env cmd \<noteq> None"
    then have "list_all ?ok ?missing"
      by (simp add: list_all_iff)
    then have "?l = ?missing"
      unfolding 1 by (rule attempted_all)
    then show "\<forall>cmd \<in> set (command_list s). count_list ?l cmd = (if cmd \<in> ?keys then 0 else 1)"
      using dm by (simp add: count_list_distinct)
  qed
  have 6: "\<forall>cmd. cmd \<in> ?keys \<longleftrightarrow>
      (if map_of (processes s) cmd = None
       then entries_for cmd (processes_found (command_list s) ps)
       else drop_first_defunct (entries_for cmd (processes_found (command_list s) ps))) \<noteq> []"
    by (rule allI) (rule parse_ps_key_iff)
  have 7: "exc_of ?r =
      (case dropWhile ?ok ?missing of
         cmd # cmds \<Rightarrow> Some (OSError cmd)
       | [] \<Rightarrow> if interrupted env then Some KeyboardInterrupt else None)"
    using tick_exc [of c s ?env] up by (simp only: e if_True)
  have main: "parse_ps_os (child_exited env) s (Output ps) = Returns ?cp ?s1 ?ev1
    \<and> tick_os c s env = Ended ?r
    \<and> ?l = attempted ?ok ?missing
    \<and> (\<forall>cmd. count_list ?l cmd \<le> 1)
    \<and> (\<forall>cmd. cmd \<in> ?keys \<longrightarrow> count_list ?l cmd = 0)
    \<and> (\<forall>cmd pid. cmd \<in> set ?l \<and> popen_child env cmd = Some pid \<longrightarrow>
          map_of (processes (state_of ?r)) cmd = Some (Popen cmd pid))
    \<and> ((\<forall>cmd \<in> set (command_list s). popen_child env cmd \<noteq> None) \<longrightarrow>
          (\<forall>cmd \<in> set (command_list s). count_list ?l cmd = (if cmd \<in> ?keys then 0 else 1)))
    \<and> (\<forall>cmd. cmd \<in> ?keys \<longleftrightarrow>
          (if map_of (processes s) cmd = None
           then entries_for cmd (processes_found (command_list s) ps)
           else drop_first_defunct (entries_for cmd (processes_found (command_list s) ps)))
          \<noteq> [])
    \<and> exc_of ?r =
        (case dropWhile ?ok ?missing of
           cmd # cmds \<Rightarrow> Some (OSError cmd)
         | [] \<Rightarrow> if interrupted env then Some KeyboardInterrupt else None)"
    by (intro conjI; (fact P T 1 2 3 4 5 6 7))
  show ?thesis
    by (rule exI [where x = ?cp], rule exI [where x = ?s1], rule exI [where x = ?ev1],
        rule exI [where x = ?r]) (rule main)
qed

theorem connected_tick_launches_unlisted_commands_witness:
  "status_answer os_up = Output ''Status: Connected'' \<and> check_vpn ''Status: Connected''
   \<and> ps_answer os_up = Output ps_none_running \<and> pids_convert ps_none_running
   \<and> waits_return (child_exited os_up) init_sentry ps_none_running
   \<and> distinct (command_list init_sentry)
   \<and> (\<exists>r. tick_os False init_sentry os_up = Ended r
        \<and> launches (trace_of r) = [''deluged'', ''deluge-web'']
        \<and> map_of (processes (state_of r)) ''deluged'' = Some (Popen ''deluged'' 101)
        \<and> exc_of r = None)
   \<and> tick_os False init_sentry os_up_missing
       = Ended (Some (OSError ''deluged''), True, init_sentry,
                [Print_connected, Print_starting ''deluged'', Spawn ''deluged''])"
proof -
  have 1: "status_answer os_up = Output ''Status: Connected''"
    "ps_answer os_up = Output ps_none_running"
    by (simp_all add: os_up_def)
  have 2: "check_vpn ''Status: Connected''"
    by (simp add: eval_defs)
  have 3: "pids_convert ps_none_running"
    by (simp add: eval_defs)
  have 4: "waits_return (child_exited os_up) init_sentry ps_none_running"
    by (simp add: waits_return_def init_sentry_def)
  have 5: "distinct (command_list init_sentry)"
    by (simp add: init_sentry_def)
  have 6: "popen_child os_up ''deluged'' = Some 101" "popen_child os_up ''deluge-web'' = Some 102"
    "\<not> interrupted os_up"
    by (simp_all add: os_up_def)
  have 7: "command_list init_sentry = [''deluged'', ''deluge-web'']"
    by (simp add: init_sentry_def)
  have 8: "parse_ps_os (child_exited os_up) init_sentry (Output ps_none_running)
      = Returns [] init_sentry []"
    by (simp add: eval_defs)
  from connected_tick_launches_unlisted_commands [OF 1(1) 2 1(2) 3 4 5, of False]
  obtain cp s' evs r where
    t: "parse_ps_os (child_exited os_up) init_sentry (Output ps_none_running) = Returns cp s' evs
    \<and> tick_os False init_sentry os_up = Ended r
    \<and> launches (trace_of r) =
        attempted (\<lambda>cmd. popen_child os_up cmd \<noteq> None)
          (filter (\<lambda>cmd. cmd \<notin> fst ` set cp) (command_list init_sentry))
    \<and> (\<forall>cmd. count_list (launches (trace_of r)) cmd \<le> 1)
    \<and> (\<forall>cmd. cmd \<in> fst ` set cp \<longrightarrow> count_list (launches (trace_of r)) cmd = 0)
    \<and> (\<forall>cmd pid. cmd \<in> set (launches (trace_of r)) \<and> popen_child os_up cmd = Some pid \<longrightarrow>
          map_of (processes (state_of r)) cmd = Some (Popen cmd pid))
    \<and> ((\<forall>cmd \<in> set (command_list init_sentry). popen_child os_up cmd \<noteq> None) \<longrightarrow>
          (\<forall>cmd \<in> set (command_list init_sentry).
             count_list (launches (trace_of r)) cmd = (if cmd \<in> fst ` set cp then 0 else 1)))
    \<and> (\<forall>cmd. cmd \<in> fst ` set cp \<longleftrightarrow>
          (if map_of (processes init_sentry) cmd = None
           then entries_for cmd (processes_found (command_list init_sentry) ps_none_running)
           else drop_first_defunct
                  (entries_for cmd (processes_found (command_list init_sentry) ps_none_running)))
          \<noteq> [])
    \<and> exc_of r =
        (case dropWhile (\<lambda>cmd. popen_child os_up cmd \<noteq> None)
                (filter (\<lambda>cmd. cmd \<notin> fst ` set cp) (command_list init_sentry)) of
           cmd # cmds \<Rightarrow> Some (OSError cmd)
         | [] \<Rightarrow> if interrupted os_up then Some KeyboardInterrupt else None)"
    by (elim exE) (rule that)
  from t have t1: "parse_ps_os (child_exited os_up) init_sentry (Output ps_none_running)
      = Returns cp s' evs"
    by (elim conjE)
  from t have t2: "tick_os False init_sentry os_up = Ended r"
    by (elim conjE)
  from t have t3: "launches (trace_of r) =
        attempted (\<lambda>cmd. popen_child os_up cmd \<noteq> None)
          (filter (\<lambda>cmd. cmd \<notin> fst ` set cp) (command_list init_sentry))"
    by (elim conjE)
  from t have t4: "\<forall>cmd pid. cmd \<in> set (launches (trace_of r)) \<and>
        popen_child os_up cmd = Some pid \<longrightarrow>
        map_of (processes (state_of r)) cmd = Some (Popen cmd pid)"
    by (elim conjE)
  from t have t5: "exc_of r =
        (case dropWhile (\<lambda>cmd. popen_child os_up cmd \<noteq> None)
                (filter (\<lambda>cmd. cmd \<notin> fst ` set cp) (command_list init_sentry)) of
           cmd # cmds \<Rightarrow> Some (OSError cmd)
         | [] \<Rightarrow> if interrupted os_up then Some KeyboardInterrupt else None)"
    by (elim conjE)
  from t1 8 have cp: "cp = []"
    by simp
  have a: "launches (trace_of r) = [''deluged'', ''deluge-web'']"
    using t3 by (simp add: cp 6 7 attempted_Cons attempted_Nil)
  have b: "map_of (processes (state_of r)) ''deluged'' = Some (Popen ''deluged'' 101)"
    using t4 a 6(1) by simp
  have c: "exc_of r = None"
    using t5 by (simp add: cp 6 7)
  have d: "\<exists>r. tick_os False init_sentry os_up = Ended r
        \<and> launches (trace_of r) = [''deluged'', ''deluge-web'']
        \<and> map_of (processes (state_of r)) ''deluged'' = Some (Popen ''deluged'' 101)
        \<and> exc_of r = None"
    using t2 a b c by (intro exI conjI)
  have f: "tick_os False init_sentry os_up_missing
       = Ended (Some (OSError ''deluged''), True, init_sentry,
                [Print_connected, Print_starting ''deluged'', Spawn ''deluged''])"
    by (simp add: eval_defs)
  show ?thesis
    by (intro conjI; (fact 1 2 3 4 5 d f))
qed

theorem unlisted_live_launch_counterexample:
  "status_answer os_up_zombie = Output ''Status: Connected''
   \<and> check_vpn ''Status: Connected''
   \<and> ps_answer os_up_zombie = Output ps_unowned_zombie
   \<and> ''deluged'' \<in> set (command_list init_sentry)
   \<and> map_of (processes init_sentry) ''deluged'' = None
   \<and> processes_found (command_list init_sentry) ps_unowned_zombie
       = [(''deluged'', 7, ''?  Z  0:00 [deluged] <defunct>'')]
   \<and> is_defunct ''?  Z  0:00 [deluged] <defunct>''
   \<and> parse_ps_os (child_exited os_up_zombie) init_sentry (Output ps_unowned_zombie)
       = Returns [(''deluged'', [7])] init_sentry []
   \<and> tick_os False init_sentry os_up_zombie
       = Ended (None, True,
                init_sentry\<lparr>processes := [(''deluge-web'', Popen ''deluge-web'' 102)]\<rparr>,
                [Print_connected, Print_starting ''deluge-web'', Spawn ''deluge-web'', Sleep 20])"
  by (simp add: eval_defs)




section \<open>The claims about errors, the loop and the handle map\<close>

lemma dropWhile_stale:
  "list_all ex pre \<Longrightarrow> \<not> ex p \<Longrightarrow> dropWhile ex (pre @ p # post) = p # post"
  by (simp add: dropWhile_append_all)

text \<open>
  Claim C4, as the code has it. \<^verbatim>\<open>os.kill\<close> on a pid that no longer exists raises
  \<^verbatim>\<open>ProcessLookupError\<close>, and \<^verbatim>\<open>kill_processes\<close> does not catch it: with \<open>p\<close> the
  first such pid of the enumeration, the call ends with that exception after the kills
  up to \<open>p\<close>, the pids after \<open>p\<close> get no signal, the iteration ends with the exception,
  and the loop stops there, whatever the environment would answer next.
\<close>

theorem stale_pid_stops_kill_all_and_loop:
  assumes "\<not> check_vpn (status_output env)"
    and "concat (map snd (fst (parse_ps s (ps_output env)))) = pre @ p # post"
    and "list_all (pid_exists env) pre"
    and "\<not> pid_exists env p"
  shows "fst (kill_processes s (ps_output env) (pid_exists env)) = Some (ProcessLookupError p)
    \<and> os_kills (snd (snd (kill_processes s (ps_output env) (pid_exists env)))) = pre @ [p]
    \<and> exc_of (tick c s env) = Some (ProcessLookupError p)
    \<and> os_kills (trace_of (tick c s env)) = pre @ [p]
    \<and> loop_from c s (env # envs) = tick c s env"
proof -
  have d: "dropWhile (pid_exists env) (concat (map snd (fst (parse_ps s (ps_output env)))))
      = p # post"
    unfolding assms(2) using assms(3,4) by (rule dropWhile_stale)
  have a: "attempted (pid_exists env) (concat (map snd (fst (parse_ps s (ps_output env)))))
      = pre @ [p]"
    unfolding assms(2) using assms(3,4) by (rule attempted_stale)
  have 1: "fst (kill_processes s (ps_output env) (pid_exists env)) = Some (ProcessLookupError p)"
    by (simp add: kill_processes_exc kill_cmds_exc d)
  have 2: "os_kills (snd (snd (kill_processes s (ps_output env) (pid_exists env)))) = pre @ [p]"
    by (simp add: kill_processes_os_kills a)
  have 3: "exc_of (tick c s env) = Some (ProcessLookupError p)"
    using assms(1) by (simp add: tick_exc d)
  have 4: "os_kills (trace_of (tick c s env)) = pre @ [p]"
    using assms(1) by (simp add: tick_os_kills a)
  have 5: "loop_from c s (env # envs) = tick c s env"
    using 3 by (rule loop_from_stop)
  from 1 2 3 4 5 show ?thesis by blast
qed

theorem stale_pid_stops_kill_all_and_loop_witness:
  "\<not> check_vpn (status_output env_down_stale)
   \<and> \<not> pid_exists env_down_stale 101
   \<and> fst (kill_processes init_sentry (ps_output env_down_stale) (pid_exists env_down_stale))
       = Some (ProcessLookupError 101)
   \<and> os_kills (trace_of (tick True init_sentry env_down_stale)) = [101]
   \<and> loop_from True init_sentry [env_down_stale, env_up] = tick True init_sentry env_down_stale"
proof -
  have 1: "\<not> check_vpn (status_output env_down_stale)"
    by (simp add: eval_defs)
  have 2: "concat (map snd (fst (parse_ps init_sentry (ps_output env_down_stale))))
      = [] @ 101 # [102]"
    by (simp add: eval_defs)
  have 3: "list_all (pid_exists env_down_stale) []"
    by simp
  have 4: "\<not> pid_exists env_down_stale 101"
    by (simp add: env_down_stale_def)
  from stale_pid_stops_kill_all_and_loop [OF 1 2 3 4, of True "[env_up]"] 1 4
  show ?thesis by simp
qed

theorem stale_pid_tolerated_counterexample:
  "\<not> pid_exists env_down_stale 101
   \<and> fst (parse_ps init_sentry ps_two_running) = [(''deluged'', [101]), (''deluge-web'', [102])]
   \<and> kill_processes init_sentry ps_two_running (pid_exists env_down_stale)
       = (Some (ProcessLookupError 101), init_sentry,
          [Print_killing ''deluged'' [101], Os_kill 101])
   \<and> loop init_sentry [env_down_stale, env_up]
       = (Some (ProcessLookupError 101), False, init_sentry,
          [Print_killing ''deluged'' [101], Os_kill 101])"
  by (simp add: eval_defs)

text \<open>
  Claim C5, as the code has it. Whenever an exception leaves the loop, \<^verbatim>\<open>run\<close> prints
  \<^verbatim>\<open>Loop terminated.\<close> once and calls \<^verbatim>\<open>kill_processes\<close> once, as its last action, on
  the state the loop left. That call stops at the first pid that no longer exists, like
  any other: it signals the pids of its enumeration up to and including that one, and its
  exception then replaces the one that stopped the loop.
\<close>

theorem run_cleanup_once_stops_at_stale_pid:
  assumes "exc_of (loop s envs) = Some e"
  shows "snd (snd (run s envs final_ps final_exists)) =
           trace_of (loop s envs) @ Print_terminated #
             snd (snd (kill_processes (state_of (loop s envs)) final_ps final_exists))
    \<and> count_list (snd (snd (run s envs final_ps final_exists))) Print_terminated = 1
    \<and> os_kills (snd (snd (kill_processes (state_of (loop s envs)) final_ps final_exists))) =
        attempted final_exists
          (concat (map snd (fst (parse_ps (state_of (loop s envs)) final_ps))))
    \<and> fst (run s envs final_ps final_exists) =
        (case dropWhile final_exists
                (concat (map snd (fst (parse_ps (state_of (loop s envs)) final_ps)))) of
           [] \<Rightarrow> Some e
         | p # ps \<Rightarrow> Some (ProcessLookupError p))"
proof -
  let ?k = "kill_processes (state_of (loop s envs)) final_ps final_exists"
  have 1: "snd (snd (run s envs final_ps final_exists)) =
      trace_of (loop s envs) @ Print_terminated # snd (snd ?k)"
    by (simp add: run_stopped [OF assms])
  have "Print_terminated \<notin> set (trace_of (loop s envs))"
    unfolding loop_def by (rule loop_from_no_terminated)
  moreover have "Print_terminated \<notin> set (snd (snd ?k))"
    using kill_processes_event_kinds by blast
  ultimately have 2: "count_list (snd (snd (run s envs final_ps final_exists))) Print_terminated = 1"
    unfolding 1 by simp
  have 3: "os_kills (snd (snd ?k)) =
      attempted final_exists
        (concat (map snd (fst (parse_ps (state_of (loop s envs)) final_ps))))"
    by (rule kill_processes_os_kills)
  have 4: "fst (run s envs final_ps final_exists) =
      (case dropWhile final_exists
              (concat (map snd (fst (parse_ps (state_of (loop s envs)) final_ps)))) of
         [] \<Rightarrow> Some e
       | p # ps \<Rightarrow> Some (ProcessLookupError p))"
    by (cases "dropWhile final_exists
                 (concat (map snd (fst (parse_ps (state_of (loop s envs)) final_ps))))")
       (simp_all only: run_stopped [OF assms] kill_processes_exc kill_cmds_exc fst_conv
          list.case option.case)
  from 1 2 3 4 show ?thesis by blast
qed

theorem run_cleanup_once_stops_at_stale_pid_witness:
  "exc_of (loop init_sentry [env_down\<lparr>sigint := True\<rparr>]) = Some KeyboardInterrupt
   \<and> count_list (snd (snd (run init_sentry [env_down\<lparr>sigint := True\<rparr>] ps_two_running
                              (\<lambda>pid. True)))) Print_terminated = 1
   \<and> os_kills (snd (snd (kill_processes
                            (state_of (loop init_sentry [env_down\<lparr>sigint := True\<rparr>]))
                            ps_two_running (\<lambda>pid. True)))) = [101, 102]"
proof -
  have 1: "exc_of (loop init_sentry [env_down\<lparr>sigint := True\<rparr>]) = Some KeyboardInterrupt"
    by (simp add: eval_defs)
  have 2: "state_of (loop init_sentry [env_down\<lparr>sigint := True\<rparr>]) = init_sentry"
    by (simp add: eval_defs)
  have 3: "concat (map snd (fst (parse_ps init_sentry ps_two_running))) = [101, 102]"
    by (simp add: eval_defs)
  have 4: "attempted (\<lambda>pid. True) [101, 102] = [101, 102]"
    by (simp add: attempted_Cons attempted_Nil)
  note t = run_cleanup_once_stops_at_stale_pid [OF 1, of ps_two_running "\<lambda>pid. True"]
  from t have a: "count_list (snd (snd (run init_sentry [env_down\<lparr>sigint := True\<rparr>]
      ps_two_running (\<lambda>pid. True)))) Print_terminated = 1"
    by blast
  from t have "os_kills (snd (snd (kill_processes
        (state_of (loop init_sentry [env_down\<lparr>sigint := True\<rparr>]))
        ps_two_running (\<lambda>pid. True)))) =
      attempted (\<lambda>pid. True) (concat (map snd (fst (parse_ps
        (state_of (loop init_sentry [env_down\<lparr>sigint := True\<rparr>])) ps_two_running))))"
    by blast
  then have b: "os_kills (snd (snd (kill_processes
        (state_of (loop init_sentry [env_down\<lparr>sigint := True\<rparr>]))
        ps_two_running (\<lambda>pid. True)))) = [101, 102]"
    by (simp only: 2 3 4)
  from 1 a b show ?thesis by blast
qed

theorem cleanup_completes_counterexample:
  "exc_of (loop init_sentry [env_down\<lparr>sigint := True\<rparr>]) = Some KeyboardInterrupt
   \<and> fst (parse_ps (state_of (loop init_sentry [env_down\<lparr>sigint := True\<rparr>])) ps_two_running)
       = [(''deluged'', [101]), (''deluge-web'', [102])]
   \<and> run init_sentry [env_down\<lparr>sigint := True\<rparr>] ps_two_running (\<lambda>pid. pid \<noteq> 101)
       = (Some (ProcessLookupError 101), init_sentry,
          [Print_killing ''deluged'' [101], Os_kill 101,
           Print_killing ''deluge-web'' [102], Os_kill 102, Print_connecting, Connect_vpn,
           Print_terminated, Print_killing ''deluged'' [101], Os_kill 101])"
  by (simp add: eval_defs)

text \<open>
  Claim C8. The flag of \<^verbatim>\<open>loop\<close> starts as disconnected. An iteration prints the connect
  edge exactly when the probe reports connected and the flag says disconnected, the
  disconnect edge exactly when the probe reports disconnected and the flag says
  connected, and leaves the probe's answer in the flag. So over the iterations the loop
  has run, each edge is printed once per change of the probe's answer; the sequence
  connected, connected, disconnected prints one connect edge and one disconnect edge.
\<close>

theorem edge_logged_once_per_change:
  "count_list (trace_of (tick c s env)) Print_connected =
     (if check_vpn (status_output env) \<and> \<not> c then 1 else 0)
   \<and> count_list (trace_of (tick c s env)) Print_disconnected =
     (if \<not> check_vpn (status_output env) \<and> c then 1 else 0)
   \<and> flag_of (tick c s env) = check_vpn (status_output env)
   \<and> (exc_of (loop s envs) = None \<longrightarrow>
        count_list (trace_of (loop s envs)) Print_connected =
          connect_edges False (map (\<lambda>env. check_vpn (status_output env)) envs)
        \<and> count_list (trace_of (loop s envs)) Print_disconnected =
          disconnect_edges False (map (\<lambda>env. check_vpn (status_output env)) envs))
   \<and> (check_vpn (status_output e1) \<and> check_vpn (status_output e2) \<and>
      \<not> check_vpn (status_output e3) \<and> exc_of (loop s [e1, e2, e3]) = None \<longrightarrow>
        count_list (trace_of (loop s [e1, e2, e3])) Print_connected = 1
        \<and> count_list (trace_of (loop s [e1, e2, e3])) Print_disconnected = 1)"
proof -
  have 1: "exc_of (loop s envs) = None \<Longrightarrow>
      count_list (trace_of (loop s envs)) Print_connected =
        connect_edges False (map (\<lambda>env. check_vpn (status_output env)) envs)" for envs
    unfolding loop_def by (rule loop_from_connect_edges)
  have 2: "exc_of (loop s envs) = None \<Longrightarrow>
      count_list (trace_of (loop s envs)) Print_disconnected =
        disconnect_edges False (map (\<lambda>env. check_vpn (status_output env)) envs)" for envs
    unfolding loop_def by (rule loop_from_disconnect_edges)
  have 3: "count_list (trace_of (loop s [e1, e2, e3])) Print_connected = 1
      \<and> count_list (trace_of (loop s [e1, e2, e3])) Print_disconnected = 1"
    if "check_vpn (status_output e1)" "check_vpn (status_output e2)"
      "\<not> check_vpn (status_output e3)" "exc_of (loop s [e1, e2, e3]) = None"
    using 1 [OF that(4)] 2 [OF that(4)] that(1-3) by simp
  show ?thesis
    using 1 [of envs] 2 [of envs] 3 tick_connect_edge [of c s env]
      tick_disconnect_edge [of c s env] tick_flag [of c s env]
    by blast
qed

theorem edge_logged_once_per_change_witness:
  "check_vpn (status_output env_up) \<and> check_vpn (status_output env_up_running)
   \<and> \<not> check_vpn (status_output env_down)
   \<and> exc_of (loop init_sentry [env_up, env_up_running, env_down]) = None
   \<and> count_list (trace_of (loop init_sentry [env_up, env_up_running, env_down]))
       Print_connected = 1
   \<and> count_list (trace_of (loop init_sentry [env_up, env_up_running, env_down]))
       Print_disconnected = 1"
proof -
  have 1: "check_vpn (status_output env_up)"
    by (simp add: eval_defs)
  have 2: "check_vpn (status_output env_up_running)"
    by (simp add: eval_defs)
  have 3: "\<not> check_vpn (status_output env_down)"
    by (simp add: eval_defs)
  have 4: "exc_of (loop init_sentry [env_up, env_up_running, env_down]) = None"
    by (simp add: eval_defs)
  from edge_logged_once_per_change
         [where s = init_sentry and ?e1.0 = env_up and ?e2.0 = env_up_running and ?e3.0 = env_down]
    1 2 3 4
  show ?thesis by blast
qed

text \<open>
  Claim C10. The handle map starts empty, and every operation keeps its keys among the
  managed commands and keeps them distinct: the enumeration with its reaping, the
  launches, the kills, a whole iteration, any number of iterations, and \<^verbatim>\<open>run\<close> with
  its final cleanup. None of them changes \<^verbatim>\<open>command_list\<close>.
\<close>

theorem handle_keys_invariant:
  "handles_ok init_sentry
   \<and> (handles_ok s \<longrightarrow>
        handles_ok (fst (snd (parse_ps s out)))
        \<and> handles_ok (fst (run_commands s out spawn))
        \<and> handles_ok (fst (snd (kill_processes s out ex)))
        \<and> handles_ok (state_of (tick c s env))
        \<and> handles_ok (state_of (loop_from c s envs))
        \<and> handles_ok (fst (snd (run s envs final_ps final_exists))))
   \<and> command_list (fst (snd (parse_ps s out))) = command_list s
   \<and> command_list (fst (run_commands s out spawn)) = command_list s
   \<and> command_list (state_of (tick c s env)) = command_list s"
proof -
  have "handles_ok init_sentry"
    by (simp add: handles_ok_def init_sentry_def)
  then show ?thesis
    using parse_ps_handles_ok [of s out] run_commands_handles_ok [of s out spawn]
      kill_processes_handles_ok [of s out ex] tick_handles_ok [of s c env]
      loop_from_handles_ok [of s c envs] run_handles_ok [of s envs final_ps final_exists]
      parse_ps_command_list [of s out] run_commands_command_list [of s out spawn]
      tick_command_list [of c s env]
    by blast
qed

theorem handle_keys_invariant_witness:
  "handles_ok owning_sentry
   \<and> handles_ok (state_of (loop_from True owning_sentry [env_up, env_down]))
   \<and> handles_ok (fst (snd (run owning_sentry [env_up, env_down_stale] ps_two_zombies
                              (\<lambda>pid. True))))"
proof -
  have "handles_ok owning_sentry"
    by (simp add: handles_ok_def owning_sentry_def init_sentry_def)
  then show ?thesis
    using handle_keys_invariant
        [where s = owning_sentry and c = True and envs = "[env_up, env_down]"]
      handle_keys_invariant
        [where s = owning_sentry and envs = "[env_up, env_down_stale]"
           and final_ps = ps_two_zombies and final_exists = "\<lambda>pid. True"]
    by blast
qed

end
